theory Spec2Isabelle
  imports Complex_Main "HOL-Library.Sublist" "HOL-Library.Log_Nat"
begin

section \<open>Council retreat assessment: response store, sheet codec and insights\<close>

text \<open>
  A shallow embedding of \<^verbatim>\<open>USU2.py\<close>: the row codec of \<^verbatim>\<open>save_to_sheets\<close> and
  \<^verbatim>\<open>load_from_sheets\<close>, the handlers that change \<^verbatim>\<open>st.session_state.responses\<close>, and
  the figures and findings of the analysis dashboard.

  Strings are \<^typ>\<open>string\<close>; Python's integers are \<^typ>\<open>int\<close>. An exception is a value
  of \<open>exn\<close>, and a function that may raise returns \<open>exn + 'a\<close>.
\<close>

text \<open>
  The exceptions: \<^verbatim>\<open>ValueError\<close> (of \<^verbatim>\<open>int\<close>, \<^verbatim>\<open>str\<close> and
  \<^verbatim>\<open>datetime.fromisoformat\<close>), \<^verbatim>\<open>KeyError\<close> with the key that is missing, and
  whatever the client of the spreadsheet service raises, with its text.
\<close>

datatype exn = ValueError | KeyError int | Service_error string

subsection \<open>Python's string operations used by the codec\<close>

text \<open>\<^verbatim>\<open>sep.join(xs)\<close>.\<close>

fun str_join :: "string \<Rightarrow> string list \<Rightarrow> string" where
  "str_join sep [] = []"
| "str_join sep [x] = x"
| "str_join sep (x # y # ys) = x @ sep @ str_join sep (y # ys)"

text \<open>
  \<^verbatim>\<open>s.split(sep)\<close> for a non-empty separator: the text is cut at every occurrence of
  \<open>sep\<close>, found from the left and not overlapping; \<open>cur\<close> is the piece being read.
  (Python raises for an empty separator; the program only ever passes \<^verbatim>\<open>", "\<close>.)
\<close>

fun split_from :: "string \<Rightarrow> string \<Rightarrow> string \<Rightarrow> string list" where
  "split_from sep cur [] = [cur]"
| "split_from sep cur (c # cs) =
     (if prefix sep (c # cs) then cur # split_from sep [] (drop (length sep - 1) cs)
      else split_from sep (cur @ [c]) cs)"

definition str_split :: "string \<Rightarrow> string \<Rightarrow> string list" where
  "str_split sep s = split_from sep [] s"

definition delim :: string where
  "delim = '', ''"

text \<open>
  The interpreter's limit on the number of decimal digits in a conversion between
  \<^verbatim>\<open>int\<close> and \<^verbatim>\<open>str\<close>, at its default; the program does not change it.
\<close>

definition int_max_str_digits :: nat where
  "int_max_str_digits = 4300"

text \<open>
  \<^verbatim>\<open>int(s)\<close> on a string, base 10: surrounding whitespace is dropped, one sign is
  allowed, then decimal digits, where single underscores may stand between two digits;
  more digits than the limit are refused. \<open>None\<close> stands for \<^verbatim>\<open>ValueError\<close>.
  Characters are read as code points below 256; the whitespace that \<^verbatim>\<open>int\<close> drops
  there is the code points 9 to 13, 32, 133 and 160.
\<close>

definition is_space :: "char \<Rightarrow> bool" where
  "is_space c = ((of_char c :: nat) \<in> {9, 10, 11, 12, 13, 32, 133, 160})"

definition is_digit :: "char \<Rightarrow> bool" where
  "is_digit c = (48 \<le> (of_char c :: nat) \<and> (of_char c :: nat) \<le> 57)"

definition digit_val :: "char \<Rightarrow> nat" where
  "digit_val c = of_char c - 48"

definition strip :: "string \<Rightarrow> string" where
  "strip s = rev (dropWhile is_space (rev (dropWhile is_space s)))"

fun scan_digits :: "bool \<Rightarrow> nat \<Rightarrow> string \<Rightarrow> nat option" where
  "scan_digits us acc [] = (if us then None else Some acc)"
| "scan_digits us acc (c # cs) =
     (if is_digit c then scan_digits False (10 * acc + digit_val c) cs
      else if c = CHR ''_'' \<and> \<not> us then scan_digits True acc cs
      else None)"

definition unsigned :: "string \<Rightarrow> nat option" where
  "unsigned s = (case s of [] \<Rightarrow> None
     | c # cs \<Rightarrow>
         if is_digit c then
           (case scan_digits False (digit_val c) cs of
              None \<Rightarrow> None
            | Some n \<Rightarrow> if int_max_str_digits < length (filter is_digit s) then None else Some n)
         else None)"

definition py_int :: "string \<Rightarrow> int option" where
  "py_int s = (case strip s of [] \<Rightarrow> None
     | c # cs \<Rightarrow>
         if c = CHR ''-'' then map_option (\<lambda>n. - int n) (unsigned cs)
         else if c = CHR ''+'' then map_option int (unsigned cs)
         else map_option int (unsigned (c # cs)))"

text \<open>
  \<^verbatim>\<open>str(n)\<close> on an integer: the decimal digits, after a minus sign for a negative
  number; \<^verbatim>\<open>ValueError\<close> when there are more digits than the limit.
\<close>

definition digit_char :: "nat \<Rightarrow> char" where
  "digit_char d = char_of (48 + d)"

function nat_digits :: "nat \<Rightarrow> string" where
  "nat_digits n = (if n < 10 then [digit_char n] else nat_digits (n div 10) @ [digit_char (n mod 10)])"
  by pat_completeness auto
termination
  by (relation "measure id") auto

definition py_str :: "int \<Rightarrow> exn + string" where
  "py_str i =
     (let ds = nat_digits (nat \<bar>i\<bar>) in
      if int_max_str_digits < length ds then Inl ValueError
      else Inr (if i < 0 then CHR ''-'' # ds else ds))"

subsection \<open>The response record and its row form\<close>

text \<open>
  The dictionary built when the form is submitted: 29 keys, in the order of the sheet's
  columns A to AC. The five multi-select answers are lists; \<open>satisfaction\<close> is an integer.
\<close>

record response =
  timestamp :: string
  name :: string
  email :: string
  position :: string
  tenure :: string
  satisfaction :: int
  role_dislikes :: string
  executive_concerns :: string
  council_dynamics :: string
  student_body_challenges :: string
  achievements :: string
  weaknesses :: string
  skills_needed :: string
  constitution_knowledge :: string
  support_gaps :: "string list"
  support_details :: string
  code_of_conduct :: string
  financial_challenges :: string
  financial_impact :: "string list"
  financial_details :: string
  academic_challenges :: string
  academic_impact :: "string list"
  academic_details :: string
  support_needs :: "string list"
  retreat_goals :: string
  training_topics :: string
  retreat_priorities :: "string list"
  previous_retreats :: string
  additional_comments :: string

text \<open>
  The row that \<^verbatim>\<open>save_to_sheets\<close> builds from a response; of its entries only
  \<^verbatim>\<open>str(satisfaction)\<close> can raise.
\<close>

definition encode_row :: "response \<Rightarrow> exn + string list" where
  "encode_row r =
    (case py_str (satisfaction r) of
       Inl e \<Rightarrow> Inl e
     | Inr sat \<Rightarrow> Inr
     [timestamp r, name r, email r, position r, tenure r,
      sat,
      role_dislikes r, executive_concerns r, council_dynamics r,
      student_body_challenges r, achievements r, weaknesses r, skills_needed r,
      constitution_knowledge r,
      str_join delim (support_gaps r),
      support_details r, code_of_conduct r, financial_challenges r,
      str_join delim (financial_impact r),
      financial_details r, academic_challenges r,
      str_join delim (academic_impact r),
      academic_details r,
      str_join delim (support_needs r),
      retreat_goals r, training_topics r,
      str_join delim (retreat_priorities r),
      previous_retreats r, additional_comments r])"

text \<open>\<^verbatim>\<open>while len(row) < 29: row.append("")\<close>\<close>

function pad_row :: "string list \<Rightarrow> string list" where
  "pad_row row = (if length row < 29 then pad_row (row @ [[]]) else row)"
  by pat_completeness auto
termination
  by (relation "measure (\<lambda>row. 29 - length row)") auto

text \<open>\<^verbatim>\<open>int(cell) if cell else 3\<close>\<close>

definition satisfaction_of :: "string \<Rightarrow> exn + int" where
  "satisfaction_of cell =
     (if cell \<noteq> [] then (case py_int cell of None \<Rightarrow> Inl ValueError | Some n \<Rightarrow> Inr n)
      else Inr 3)"

text \<open>\<^verbatim>\<open>cell.split(", ") if cell else []\<close>\<close>

definition choices_of :: "string \<Rightarrow> string list" where
  "choices_of cell = (if cell \<noteq> [] then str_split delim cell else [])"

text \<open>
  The body of the loop in \<^verbatim>\<open>load_from_sheets\<close>: one row of the sheet becomes one
  response. After the padding every index below 29 is in range, so the only
  expression that can raise is \<^verbatim>\<open>int(row[5])\<close>.
\<close>

definition decode_row :: "string list \<Rightarrow> exn + response" where
  "decode_row row0 =
     (let row = pad_row row0 in
      case satisfaction_of (row ! 5) of
        Inl e \<Rightarrow> Inl e
      | Inr sat \<Rightarrow> Inr \<lparr>
          timestamp = row ! 0, name = row ! 1, email = row ! 2, position = row ! 3,
          tenure = row ! 4, satisfaction = sat,
          role_dislikes = row ! 6, executive_concerns = row ! 7,
          council_dynamics = row ! 8, student_body_challenges = row ! 9,
          achievements = row ! 10, weaknesses = row ! 11, skills_needed = row ! 12,
          constitution_knowledge = row ! 13,
          support_gaps = choices_of (row ! 14),
          support_details = row ! 15, code_of_conduct = row ! 16,
          financial_challenges = row ! 17,
          financial_impact = choices_of (row ! 18),
          financial_details = row ! 19, academic_challenges = row ! 20,
          academic_impact = choices_of (row ! 21),
          academic_details = row ! 22,
          support_needs = choices_of (row ! 23),
          retreat_goals = row ! 24, training_topics = row ! 25,
          retreat_priorities = choices_of (row ! 26),
          previous_retreats = row ! 27, additional_comments = row ! 28 \<rparr>)"

text \<open>The loop over the rows: the first exception ends it.\<close>

fun decode_rows :: "string list list \<Rightarrow> exn + response list" where
  "decode_rows [] = Inr []"
| "decode_rows (row # rows) =
     (case decode_row row of
        Inl e \<Rightarrow> Inl e
      | Inr r \<Rightarrow> (case decode_rows rows of Inl e \<Rightarrow> Inl e | Inr rs \<Rightarrow> Inr (r # rs)))"

subsection \<open>The session, the sheet and the screen\<close>

text \<open>
  What the script shows with \<^verbatim>\<open>st.success\<close>, \<^verbatim>\<open>st.warning\<close>, \<^verbatim>\<open>st.error\<close> and
  \<^verbatim>\<open>st.info\<close>: one constructor for each message of the handlers below, with the
  text that is put into it.
\<close>

datatype level = Success | Warning | Error | Info

datatype message =
    Error_connecting exn
  | Error_saving exn
  | Error_loading exn
  | Saved_to_sheets
  | Saved_locally_only
  | Assessment_recorded
  | Data_refreshed
  | Login_successful
  | Incorrect_password
  | Logged_in_as_admin
  | Synced_with_sheets
  | No_responses_to_download
  | No_responses_to_view
  | All_cleared
  | Low_satisfaction_alert
  | Financial_support_needed
  | Academic_balance_concerns
  | Retreat_focus_areas string

fun level_of :: "message \<Rightarrow> level" where
  "level_of (Error_connecting e) = Error"
| "level_of (Error_saving e) = Error"
| "level_of (Error_loading e) = Error"
| "level_of Saved_to_sheets = Success"
| "level_of Saved_locally_only = Warning"
| "level_of Assessment_recorded = Success"
| "level_of Data_refreshed = Success"
| "level_of Login_successful = Success"
| "level_of Incorrect_password = Error"
| "level_of Logged_in_as_admin = Success"
| "level_of Synced_with_sheets = Success"
| "level_of No_responses_to_download = Info"
| "level_of No_responses_to_view = Info"
| "level_of All_cleared = Success"
| "level_of Low_satisfaction_alert = Error"
| "level_of Financial_support_needed = Warning"
| "level_of Academic_balance_concerns = Warning"
| "level_of (Retreat_focus_areas names) = Info"

text \<open>
  How the spreadsheet service behaves during one call: \<^verbatim>\<open>get_sheets_service\<close> fails
  (it shows the error and returns \<^verbatim>\<open>None\<close>), or the request raises, or it is served.
  Each failure carries the exception that is caught.
\<close>

datatype backend = No_service exn | Request_fails exn | Responds

text \<open>
  \<open>responses\<close> and \<open>admin_logged_in\<close> are the two entries of \<^verbatim>\<open>st.session_state\<close>;
  \<open>sheet\<close> is the data rows of the range \<^verbatim>\<open>Responses!A2:AC\<close> as the service returns
  them; \<open>shown\<close> is what has been put on the screen.
\<close>

record app =
  responses :: "response list"
  admin_logged_in :: bool
  sheet :: "string list list"
  shown :: "message list"

definition display :: "message \<Rightarrow> app \<Rightarrow> app" where
  "display m s = s\<lparr>shown := shown s @ [m]\<rparr>"

text \<open>
  \<^verbatim>\<open>save_to_sheets(response_data)\<close>; \<open>use\<close> is \<^verbatim>\<open>USE_GOOGLE_SHEETS\<close>. The service is
  obtained first, then the row is built, then the request is made.
\<close>

definition save_to_sheets :: "bool \<Rightarrow> backend \<Rightarrow> response \<Rightarrow> app \<Rightarrow> bool \<times> app" where
  "save_to_sheets use be r s =
     (if \<not> use then (False, s)
      else case be of
        No_service e \<Rightarrow> (False, display (Error_connecting e) s)
      | Request_fails e \<Rightarrow>
          (case encode_row r of
             Inl e' \<Rightarrow> (False, display (Error_saving e') s)
           | Inr row \<Rightarrow> (False, display (Error_saving e) s))
      | Responds \<Rightarrow>
          (case encode_row r of
             Inl e' \<Rightarrow> (False, display (Error_saving e') s)
           | Inr row \<Rightarrow> (True, s\<lparr>sheet := sheet s @ [row]\<rparr>)))"

text \<open>\<^verbatim>\<open>load_from_sheets()\<close>\<close>

definition load_from_sheets :: "bool \<Rightarrow> backend \<Rightarrow> app \<Rightarrow> response list \<times> app" where
  "load_from_sheets use be s =
     (if \<not> use then ([], s)
      else case be of
        No_service e \<Rightarrow> ([], display (Error_connecting e) s)
      | Request_fails e \<Rightarrow> ([], display (Error_loading e) s)
      | Responds \<Rightarrow>
          (if sheet s = [] then ([], s)
           else case decode_rows (sheet s) of
             Inl e \<Rightarrow> ([], display (Error_loading e) s)
           | Inr rs \<Rightarrow> (rs, s)))"

text \<open>The form's \<^verbatim>\<open>if submitted:\<close> block, from the save to the sheet on.\<close>

definition submit_assessment :: "bool \<Rightarrow> backend \<Rightarrow> response \<Rightarrow> app \<Rightarrow> app" where
  "submit_assessment use be r s =
     (let s1 = (if use then
                  (case save_to_sheets use be r s of
                     (True, s') \<Rightarrow> display Saved_to_sheets s'
                   | (False, s') \<Rightarrow> display Saved_locally_only s')
                else s);
          s2 = s1\<lparr>responses := responses s1 @ [r]\<rparr>
      in display Assessment_recorded s2)"

text \<open>The dashboard's refresh button; \<open>clicked\<close> is what \<^verbatim>\<open>st.button\<close> returns.\<close>

definition refresh_data :: "bool \<Rightarrow> bool \<Rightarrow> backend \<Rightarrow> app \<Rightarrow> app" where
  "refresh_data use clicked be s =
     (if use then
        (if clicked then
           (case load_from_sheets use be s of
              (rs, s') \<Rightarrow> display Data_refreshed (s'\<lparr>responses := rs\<rparr>))
         else s)
      else s)"

text \<open>
  What the widgets of the admin page return in one run of the script: the text of the
  password field, and for each button and for the checkbox whether it is pressed or
  ticked. They are inputs of the run; which combinations the Streamlit library can
  deliver is not decided by this program's text.
\<close>

record admin_widgets =
  typed_password :: string
  login_clicked :: bool
  sync_clicked :: bool
  logout_clicked :: bool
  clear_clicked :: bool
  understood_checked :: bool

text \<open>
  One run of the admin page. \<open>pw\<close> is \<^verbatim>\<open>ADMIN_PASSWORD\<close>. \<open>parses\<close> says which texts
  \<^verbatim>\<open>datetime.fromisoformat\<close> accepts: the function belongs to Python's library, so it
  is a parameter here; on any other text it raises \<^verbatim>\<open>ValueError\<close>, which nothing
  catches. The result is the state at the end of the run and the exception that ended
  it, if one did. A run also ends at \<^verbatim>\<open>st.rerun()\<close>. Without a login the page is the
  login form. With one, in this order: the sync button; the time of the latest response,
  read from the timestamp of the last response; the logout button; the downloads; the
  table; the clear button with its checkbox. (The counts, the download buttons and the
  table show the responses and change nothing; they are left out.)
\<close>

definition admin_page ::
  "bool \<Rightarrow> string \<Rightarrow> (string \<Rightarrow> bool) \<Rightarrow> backend \<Rightarrow> admin_widgets \<Rightarrow> app \<Rightarrow> app \<times> exn option"
where
  "admin_page use pw parses be w s =
     (if \<not> admin_logged_in s then
        (if login_clicked w then
           (if typed_password w = pw
            then (display Login_successful (s\<lparr>admin_logged_in := True\<rparr>), None)
            else (display Incorrect_password s, None))
         else (s, None))
      else
        (let s1 = display Logged_in_as_admin s in
         if use \<and> sync_clicked w then
           (case load_from_sheets use be s1 of
              (rs, s2) \<Rightarrow> (display Synced_with_sheets (s2\<lparr>responses := rs\<rparr>), None))
         else if responses s1 \<noteq> [] \<and> \<not> parses (timestamp (last (responses s1))) then
           (s1, Some ValueError)
         else if logout_clicked w then (s1\<lparr>admin_logged_in := False\<rparr>, None)
         else
           (let s2 = (if responses s1 \<noteq> [] then s1 else display No_responses_to_download s1);
                s3 = (if responses s2 \<noteq> [] then s2 else display No_responses_to_view s2)
            in if clear_clicked w then
                 (if understood_checked w
                  then (display All_cleared (s3\<lparr>responses := []\<rparr>), None)
                  else (s3, None))
               else (s3, None))))"

subsection \<open>Floating point\<close>

text \<open>
  Python's \<^verbatim>\<open>float\<close> is the IEEE 754 binary64 format. A finite float is written as the
  rational number it stands for, and \<open>fl64\<close> is the rounding of an exact result to the
  format: 53 significant bits, the exponent not below -1022, to the nearest
  representable number and to the one with an even last bit when two are equally near.
  (No count and no mean of bounded satisfactions comes near \<open>2 ^ 1024\<close>, where the
  format ends and the rounding would give infinity.)
\<close>

definition round_half_even :: "rat \<Rightarrow> int" where
  "round_half_even x =
     (let f = \<lfloor>x\<rfloor>; d = x - of_int f
      in if d < 1 / 2 then f else if 1 / 2 < d then f + 1 else if even f then f else f + 1)"

text \<open>For \<open>x > 0\<close>, the \<open>e\<close> with \<open>2 ^ e \<le> x < 2 ^ (e + 1)\<close>.\<close>

definition floor_log2 :: "rat \<Rightarrow> int" where
  "floor_log2 x =
     (case quotient_of x of (a, b) \<Rightarrow>
        let d = bitlen a - bitlen b in if 2 powi d \<le> x then d else d - 1)"

definition fl64 :: "rat \<Rightarrow> rat" where
  "fl64 x =
     (if x = 0 then 0
      else let e = max (floor_log2 \<bar>x\<bar>) (- 1022); u = 2 powi (e - 52)
           in sgn x * of_int (round_half_even (\<bar>x\<bar> / u)) * u)"

subsection \<open>The analysis dashboard\<close>

text \<open>
  The data frame is the list of responses, a column is the list of one field.

  Modelled from the spec: \<^verbatim>\<open>Series.mean()\<close> is code of the pandas library, which the
  repository does not contain. After the spec's \<^verbatim>\<open>meanSatisfaction\<close>, the arithmetic
  mean of the bounded integer field as a float: the sum divided by the count, rounded to
  a float; not a number, written \<open>None\<close>, for an empty column.
\<close>

definition series_mean :: "int list \<Rightarrow> rat option" where
  "series_mean xs =
     (if xs = [] then None else Some (fl64 (of_int (sum_list xs) / of_nat (length xs))))"

text \<open>\<^verbatim>\<open>len(df[df[col] == 'Yes'])\<close>\<close>

definition count_yes :: "(response \<Rightarrow> string) \<Rightarrow> response list \<Rightarrow> nat" where
  "count_yes col rs = length (filter (\<lambda>r. col r = ''Yes'') rs)"

text \<open>The loops that extend \<^verbatim>\<open>all_gaps\<close> and \<^verbatim>\<open>all_priorities\<close> with every response's list.\<close>

definition all_gaps :: "response list \<Rightarrow> string list" where
  "all_gaps rs = concat (map support_gaps rs)"

definition all_priorities :: "response list \<Rightarrow> string list" where
  "all_priorities rs = concat (map retreat_priorities rs)"

text \<open>
  Modelled from the spec: \<^verbatim>\<open>Series.value_counts()\<close> is code of the pandas library, which
  the repository does not contain. After the spec's \<^verbatim>\<open>countBy\<close> and \<^verbatim>\<open>topN\<close>: every
  element adds one to the count of its category, categories are kept in the order in
  which they are first seen, and the pairs are then sorted by count, largest first, by a
  sort that keeps pairs of equal count in that order.
\<close>

fun tally_step :: "'a \<Rightarrow> ('a \<times> nat) list \<Rightarrow> ('a \<times> nat) list" where
  "tally_step x [] = [(x, 1)]"
| "tally_step x ((k, n) # kvs) = (if k = x then (k, n + 1) # kvs else (k, n) # tally_step x kvs)"

text \<open>
  Modelled from the spec: the counting part of \<^verbatim>\<open>value_counts\<close>, one step for each
  element of the input, from the left.
\<close>

definition tally :: "'a list \<Rightarrow> ('a \<times> nat) list" where
  "tally xs = foldl (\<lambda>kvs x. tally_step x kvs) [] xs"

text \<open>
  Modelled from the spec: the sorting part of \<^verbatim>\<open>value_counts\<close>. The library's
  \<open>sort_key\<close> is an insertion sort that keeps elements of equal key in their order; the
  key is the negated count, so that the largest count comes first.
\<close>

definition value_counts :: "'a list \<Rightarrow> ('a \<times> nat) list" where
  "value_counts xs = sort_key (\<lambda>kv. - int (snd kv)) (tally xs)"

text \<open>\<^verbatim>\<open>.head(n)\<close> of the counts.\<close>

definition top_n :: "nat \<Rightarrow> 'a list \<Rightarrow> ('a \<times> nat) list" where
  "top_n n xs = take n (value_counts xs)"

text \<open>The four figures at the top of the dashboard.\<close>

record metrics =
  total_responses :: nat
  avg_sat :: "rat option"
  financial_yes :: nat
  academic_yes :: nat

definition key_metrics :: "response list \<Rightarrow> metrics" where
  "key_metrics rs =
     \<lparr> total_responses = length rs,
       avg_sat = series_mean (map satisfaction rs),
       financial_yes = count_yes financial_challenges rs,
       academic_yes = count_yes academic_challenges rs \<rparr>"

text \<open>
  The chart of the satisfaction levels: \<^verbatim>\<open>value_counts().sort_index()\<close> gives the
  levels that occur, in ascending order, with their counts; each level is then looked
  up in the dictionary \<^verbatim>\<open>sat_labels\<close>, which has the keys 1 to 5, and a level that is
  not a key raises \<^verbatim>\<open>KeyError\<close>.
\<close>

definition sat_labels :: "int \<Rightarrow> string option" where
  "sat_labels =
     map_of [(1, ''Very Dissatisfied''), (2, ''Dissatisfied''), (3, ''Neutral''),
             (4, ''Satisfied''), (5, ''Very Satisfied'')]"

definition sat_counts :: "int list \<Rightarrow> (int \<times> nat) list" where
  "sat_counts xs = sort_key fst (value_counts xs)"

fun label_bars :: "(int \<times> nat) list \<Rightarrow> exn + (string \<times> nat) list" where
  "label_bars [] = Inr []"
| "label_bars ((i, c) # ics) =
     (case sat_labels i of
        None \<Rightarrow> Inl (KeyError i)
      | Some l \<Rightarrow> (case label_bars ics of Inl e \<Rightarrow> Inl e | Inr bs \<Rightarrow> Inr ((l, c) # bs)))"

text \<open>
  The charts: the bars of the satisfaction levels, the two pies of the answers on
  financial and academic challenges, the eight most frequent support gaps and the
  retreat priorities (the last two are drawn only when there is something to count).
\<close>

record charts =
  satisfaction_bars :: "(string \<times> nat) list"
  financial_pie :: "(string \<times> nat) list"
  academic_pie :: "(string \<times> nat) list"
  support_gap_bars :: "(string \<times> nat) list"
  priority_bars :: "(string \<times> nat) list"

text \<open>
  The section "Key Insights & Recommendations". A comparison with not-a-number is false.
  In \<^verbatim>\<open>len(df) * 0.3\<close> the literal is the float nearest to 3/10, the length is made a
  float, and the product is rounded; the comparison of an integer with a float is exact.
\<close>

definition key_insights :: "response list \<Rightarrow> message list" where
  "key_insights rs =
     (let m = key_metrics rs;
          n = length rs;
          priorities = all_priorities rs
      in (if (case avg_sat m of None \<Rightarrow> False | Some a \<Rightarrow> a < 3)
          then [Low_satisfaction_alert] else [])
       @ (if of_nat (financial_yes m) > fl64 (fl64 (of_nat n) * fl64 (3 / 10))
          then [Financial_support_needed] else [])
       @ (if of_nat (academic_yes m) > fl64 (fl64 (of_nat n) * fl64 (3 / 10))
          then [Academic_balance_concerns] else [])
       @ (if priorities \<noteq> []
          then [Retreat_focus_areas (str_join '', '' (map fst (top_n 3 priorities)))] else []))"

text \<open>
  One run of the dashboard page below the refresh button, with no file uploaded. With
  no responses it only says so. Otherwise it shows the figures, then the charts, then
  the findings; when the chart of the satisfaction levels raises, nothing catches the
  exception and the run ends with the figures on the screen and no findings.
\<close>

datatype dashboard =
    No_responses_yet
  | Raised metrics exn
  | Completed metrics charts "message list"

definition analysis_dashboard :: "response list \<Rightarrow> dashboard" where
  "analysis_dashboard rs =
     (if length rs = 0 then No_responses_yet
      else case label_bars (sat_counts (map satisfaction rs)) of
        Inl e \<Rightarrow> Raised (key_metrics rs) e
      | Inr bars \<Rightarrow>
          Completed (key_metrics rs)
            \<lparr> satisfaction_bars = bars,
              financial_pie = value_counts (map financial_challenges rs),
              academic_pie = value_counts (map academic_challenges rs),
              support_gap_bars = top_n 8 (all_gaps rs),
              priority_bars = value_counts (all_priorities rs) \<rparr>
            (key_insights rs))"

subsection \<open>Notions and sample data for the statements\<close>

text \<open>The value of a run of decimal digits read after the value \<open>acc\<close>.\<close>

definition digits_value :: "nat \<Rightarrow> string \<Rightarrow> nat" where
  "digits_value acc s = foldl (\<lambda>a c. 10 * a + digit_val c) acc s"

text \<open>An integer with no more decimal digits than the limit, so that \<^verbatim>\<open>str\<close> prints it.\<close>

definition within_digit_limit :: "int \<Rightarrow> bool" where
  "within_digit_limit i \<longleftrightarrow> length (nat_digits (nat \<bar>i\<bar>)) \<le> int_max_str_digits"

text \<open>Decoding what encoding returns; an exception of the encoding goes through.\<close>

definition decode_encoded :: "response \<Rightarrow> exn + response" where
  "decode_encoded r = (case encode_row r of Inl e \<Rightarrow> Inl e | Inr row \<Rightarrow> decode_row row)"

text \<open>No element of a list of choices contains the separator \<^verbatim>\<open>", "\<close>.\<close>

definition plain_choices :: "string list \<Rightarrow> bool" where
  "plain_choices xs \<longleftrightarrow> (\<forall>x \<in> set xs. \<not> sublist delim x)"

text \<open>The five multi-select answers of a response.\<close>

definition multi_valued :: "response \<Rightarrow> string list list" where
  "multi_valued r =
     [support_gaps r, financial_impact r, academic_impact r, support_needs r,
      retreat_priorities r]"

text \<open>The response with nothing filled in, and one filled in as the form would.\<close>

definition blank_response :: response where
  "blank_response =
     \<lparr> timestamp = [], name = [], email = [], position = [], tenure = [],
       satisfaction = 3, role_dislikes = [], executive_concerns = [],
       council_dynamics = [], student_body_challenges = [], achievements = [],
       weaknesses = [], skills_needed = [], constitution_knowledge = [],
       support_gaps = [], support_details = [], code_of_conduct = [],
       financial_challenges = [], financial_impact = [], financial_details = [],
       academic_challenges = [], academic_impact = [], academic_details = [],
       support_needs = [], retreat_goals = [], training_topics = [],
       retreat_priorities = [], previous_retreats = [], additional_comments = [] \<rparr>"

definition sample_response :: response where
  "sample_response =
     blank_response \<lparr> timestamp := ''2024-05-01T10:00:00'', tenure := ''First year on Council'',
       satisfaction := 4, financial_challenges := ''Yes'', academic_challenges := ''No'',
       financial_impact := [''My personal life and well-being''],
       retreat_priorities := [''Team building and Council unity'', ''Skills training and workshops''] \<rparr>"

definition empty_choice_response :: response where
  "empty_choice_response = blank_response \<lparr> support_gaps := [[]] \<rparr>"

definition huge_response :: response where
  "huge_response = blank_response \<lparr> satisfaction := 10 ^ int_max_str_digits \<rparr>"

text \<open>The row that is written to the sheet for \<open>sample_response\<close>.\<close>

definition sample_row :: "string list" where
  "sample_row =
     [''2024-05-01T10:00:00'', [], [], [], ''First year on Council'', ''4'',
      [], [], [], [], [], [], [], [],
      [], [], [], ''Yes'', ''My personal life and well-being'', [], ''No'', [], [],
      [], [], [], ''Team building and Council unity, Skills training and workshops'',
      [], []]"

text \<open>
  The cell of a row at a position, the empty string where the row is too short; the
  columns of the text fields and of the multi-select answers, and the text fields of a
  response in the order of their columns.
\<close>

definition cell :: "string list \<Rightarrow> nat \<Rightarrow> string" where
  "cell row i = (if i < length row then row ! i else [])"

definition text_columns :: "nat list" where
  "text_columns = [0, 1, 2, 3, 4, 6, 7, 8, 9, 10, 11, 12, 13, 15, 16, 17, 19, 20, 22, 24, 25, 27, 28]"

definition choice_columns :: "nat list" where
  "choice_columns = [14, 18, 21, 23, 26]"

definition text_fields :: "response \<Rightarrow> string list" where
  "text_fields r =
     [timestamp r, name r, email r, position r, tenure r,
      role_dislikes r, executive_concerns r, council_dynamics r,
      student_body_challenges r, achievements r, weaknesses r, skills_needed r,
      constitution_knowledge r, support_details r, code_of_conduct r,
      financial_challenges r, financial_details r, academic_challenges r,
      academic_details r, retreat_goals r, training_topics r,
      previous_retreats r, additional_comments r]"

text \<open>The satisfaction of the decoded response, or the exception.\<close>

definition decoded_satisfaction :: "string list \<Rightarrow> exn + int" where
  "decoded_satisfaction row = map_sum id satisfaction (decode_row row)"

text \<open>
  The satisfaction cell of a row is absent, empty, or text that \<^verbatim>\<open>int\<close> accepts.
\<close>

definition cell_parses :: "string list \<Rightarrow> bool" where
  "cell_parses row \<longleftrightarrow> cell row 5 = [] \<or> py_int (cell row 5) \<noteq> None"

text \<open>Rows as the sheet may hold them.\<close>

definition short_row :: "string list" where
  "short_row = [''2024-05-01T10:00:00'', ''Ann'', [], ''President'']"

definition empty_cell_row :: "string list" where
  "empty_cell_row =
     [''2024-05-01T10:00:00'', ''Ann'', [], ''President'', ''First year on Council'', [],
      ''meetings'']"

definition seven_row :: "string list" where
  "seven_row =
     [''2024-05-01T10:00:00'', ''Ann'', [], ''President'', ''First year on Council'', ''7'']"

definition corrupt_row :: "string list" where
  "corrupt_row =
     [''2024-05-01T10:00:00'', ''Ann'', [], ''President'', ''First year on Council'', ''abc'']"

definition good_sheet :: "string list list" where
  "good_sheet = [sample_row, short_row, seven_row]"

definition corrupt_sheet :: "string list list" where
  "corrupt_sheet = [sample_row, corrupt_row, seven_row]"

text \<open>The application before anything has happened.\<close>

definition fresh_app :: app where
  "fresh_app = \<lparr> responses = [], admin_logged_in = False, sheet = [], shown = [] \<rparr>"

text \<open>A failure of the service, and a session with a response that the sheet does not hold.\<close>

definition timeout_error :: exn where
  "timeout_error = Service_error ''timed out''"

definition stale_app :: app where
  "stale_app = fresh_app \<lparr> responses := [blank_response], admin_logged_in := True, sheet := good_sheet \<rparr>"

text \<open>
  A session of the admin with one response, the widgets of a run in which the clear
  button is pressed and the checkbox ticked, and a stand-in for
  \<^verbatim>\<open>datetime.fromisoformat\<close> that accepts the timestamp of that response.
\<close>

definition admin_app :: app where
  "admin_app =
     fresh_app \<lparr> responses := [sample_response], admin_logged_in := True, sheet := good_sheet \<rparr>"

definition clear_run :: admin_widgets where
  "clear_run =
     \<lparr> typed_password = [], login_clicked = False, sync_clicked = False,
       logout_clicked = False, clear_clicked = True, understood_checked = True \<rparr>"

definition accepts_sample_timestamp :: "string \<Rightarrow> bool" where
  "accepts_sample_timestamp t \<longleftrightarrow> t = ''2024-05-01T10:00:00''"

text \<open>What the rows of \<open>good_sheet\<close> decode to.\<close>

definition decoded_good_sheet :: "response list" where
  "decoded_good_sheet =
     [sample_response,
      blank_response \<lparr> timestamp := ''2024-05-01T10:00:00'', name := ''Ann'', position := ''President'' \<rparr>,
      blank_response \<lparr> timestamp := ''2024-05-01T10:00:00'', name := ''Ann'', position := ''President'',
        tenure := ''First year on Council'', satisfaction := 7 \<rparr>]"

text \<open>
  The position at which a category is first seen in the input, and the order of two
  counted categories by it.
\<close>

definition first_pos :: "'a list \<Rightarrow> 'a \<Rightarrow> nat" where
  "first_pos xs k = length (takeWhile (\<lambda>x. x \<noteq> k) xs)"

definition seen_before :: "'a list \<Rightarrow> 'a \<times> nat \<Rightarrow> 'a \<times> nat \<Rightarrow> bool" where
  "seen_before xs a b \<longleftrightarrow> first_pos xs (fst a) < first_pos xs (fst b)"

text \<open>
  A response whose satisfaction is one of 1 to 5, the exact arithmetic mean of the
  satisfactions, and the share of the responses with the answer \<^verbatim>\<open>Yes\<close> in a column.
\<close>

definition in_range :: "response \<Rightarrow> bool" where
  "in_range r \<longleftrightarrow> 1 \<le> satisfaction r \<and> satisfaction r \<le> 5"

definition mean_satisfaction :: "response list \<Rightarrow> rat" where
  "mean_satisfaction rs = of_int (sum_list (map satisfaction rs)) / of_nat (length rs)"

definition share_yes :: "(response \<Rightarrow> string) \<Rightarrow> response list \<Rightarrow> rat" where
  "share_yes col rs = of_nat (count_yes col rs) / of_nat (length rs)"

text \<open>Collections of responses for the dashboard.\<close>

definition low_six :: "response list" where
  "low_six = map (\<lambda>n. blank_response \<lparr> satisfaction := n \<rparr>) [7, 1, 1, 1, 1, 1]"


definition yes_response :: response where
  "yes_response = sample_response"

definition no_response :: response where
  "no_response = blank_response \<lparr> satisfaction := 2, financial_challenges := ''No'', academic_challenges := ''Yes'' \<rparr>"

definition four_of_ten :: "response list" where
  "four_of_ten = replicate 4 yes_response @ replicate 6 no_response"

definition two_of_ten :: "response list" where
  "two_of_ten = replicate 2 yes_response @ replicate 8 no_response"


definition two_votes :: "response list" where
  "two_votes =
     [blank_response \<lparr> retreat_priorities := [''Team building'', ''Skills training''] \<rparr>,
      blank_response \<lparr> retreat_priorities := [''Team building''] \<rparr>]"

section \<open>Properties of the row codec\<close>

declare pad_row.simps [simp del]
declare nat_digits.simps [simp del]

subsection \<open>Splitting a joined list\<close>

text \<open>
  An occurrence of \<^verbatim>\<open>", "\<close> cannot begin in a piece that does not contain it and
  end in the separator behind it: the separator starts with a comma, not a space.
\<close>

lemma not_prefix_delim:
  assumes "\<not> sublist delim (c # cs)"
  shows "\<not> prefix delim (c # cs @ delim @ rest)"
proof
  assume p: "prefix delim (c # cs @ delim @ rest)"
  show False
  proof (cases cs)
    case Nil
    with p show False by (simp add: delim_def)
  next
    case (Cons d ds)
    with p have "prefix delim (c # cs)" by (simp add: delim_def)
    then have "sublist delim (c # cs)" by (rule prefix_imp_sublist)
    with assms show False by simp
  qed
qed

lemma split_from_piece:
  "\<not> sublist delim x \<Longrightarrow>
   split_from delim cur (x @ delim @ rest) = (cur @ x) # split_from delim [] rest"
proof (induction x arbitrary: cur)
  case Nil
  show ?case by (simp add: delim_def)
next
  case (Cons c cs)
  from Cons.prems have np: "\<not> prefix delim (c # cs @ delim @ rest)"
    by (rule not_prefix_delim)
  from Cons.prems have ns: "\<not> sublist delim cs"
    by (simp add: sublist_Cons_right)
  have "split_from delim cur ((c # cs) @ delim @ rest)
        = split_from delim (cur @ [c]) (cs @ delim @ rest)"
    using np by simp
  also have "\<dots> = ((cur @ [c]) @ cs) # split_from delim [] rest"
    using ns by (rule Cons.IH)
  finally show ?case by simp
qed

lemma split_from_last:
  "\<not> sublist delim x \<Longrightarrow> split_from delim cur x = [cur @ x]"
proof (induction x arbitrary: cur)
  case Nil
  show ?case by simp
next
  case (Cons c cs)
  from Cons.prems have np: "\<not> prefix delim (c # cs)"
    using prefix_imp_sublist by blast
  from Cons.prems have ns: "\<not> sublist delim cs"
    by (simp add: sublist_Cons_right)
  show ?case using np Cons.IH [OF ns] by simp
qed

lemma split_join:
  "xs \<noteq> [] \<Longrightarrow> \<forall>x \<in> set xs. \<not> sublist delim x \<Longrightarrow> str_split delim (str_join delim xs) = xs"
  unfolding str_split_def
proof (induction xs rule: induct_list012)
  case 1
  then show ?case by simp
next
  case (2 x)
  then show ?case by (simp add: split_from_last)
next
  case (3 x y ys)
  then show ?case by (simp add: split_from_piece)
qed

lemma join_eq_Nil: "str_join delim xs = [] \<longleftrightarrow> xs = [] \<or> xs = [[]]"
  by (induction delim xs rule: str_join.induct) (auto simp: delim_def)

lemma choices_of_join:
  "\<forall>x \<in> set xs. \<not> sublist delim x \<Longrightarrow> xs \<noteq> [[]] \<Longrightarrow> choices_of (str_join delim xs) = xs"
  by (cases "xs = []") (simp_all add: choices_of_def join_eq_Nil split_join)

subsection \<open>Reading back a printed integer\<close>

lemma of_char_digit_char: "d < 10 \<Longrightarrow> (of_char (digit_char d) :: nat) = 48 + d"
  by (simp add: digit_char_def)

lemma digit_char_props:
  assumes "d < 10"
  shows "is_digit (digit_char d)" and "digit_val (digit_char d) = d"
    and "\<not> is_space (digit_char d)"
    and "digit_char d \<noteq> CHR ''-''" and "digit_char d \<noteq> CHR ''+''"
proof -
  have v: "(of_char (digit_char d) :: nat) = 48 + d"
    using assms by (rule of_char_digit_char)
  show "is_digit (digit_char d)" using assms by (simp add: is_digit_def v)
  show "digit_val (digit_char d) = d" by (simp add: digit_val_def v)
  show "\<not> is_space (digit_char d)" using assms by (simp add: is_space_def v)
  have "(of_char (digit_char d) :: nat) \<noteq> of_char CHR ''-''" using assms by (simp add: v)
  then show "digit_char d \<noteq> CHR ''-''" by auto
  have "(of_char (digit_char d) :: nat) \<noteq> of_char CHR ''+''" using assms by (simp add: v)
  then show "digit_char d \<noteq> CHR ''+''" by auto
qed

lemma nat_digits_shape: "nat_digits n \<noteq> [] \<and> set (nat_digits n) \<subseteq> digit_char ` {..<10}"
proof (induction n rule: nat_digits.induct)
  case (1 n)
  show ?case
  proof (cases "n < 10")
    case True
    then show ?thesis by (subst (1 2) nat_digits.simps) auto
  next
    case False
    have "n mod 10 < 10" by simp
    with False 1 show ?thesis by (subst (1 2) nat_digits.simps) auto
  qed
qed

lemma scan_all_digits:
  "\<forall>c \<in> set s. is_digit c \<Longrightarrow> scan_digits False acc s = Some (digits_value acc s)"
  by (induction s arbitrary: acc) (simp_all add: digits_value_def)

lemma digits_value_nat_digits: "digits_value 0 (nat_digits n) = n"
proof (induction n rule: nat_digits.induct)
  case (1 n)
  show ?case
  proof (cases "n < 10")
    case True
    then show ?thesis
      by (subst nat_digits.simps) (simp add: digits_value_def digit_char_props)
  next
    case False
    with 1 have "digits_value 0 (nat_digits (n div 10)) = n div 10" by simp
    with False show ?thesis
      by (subst nat_digits.simps) (simp add: digits_value_def digit_char_props)
  qed
qed

lemma unsigned_nat_digits:
  assumes "length (nat_digits n) \<le> int_max_str_digits"
  shows "unsigned (nat_digits n) = Some n"
proof -
  obtain c cs where s: "nat_digits n = c # cs"
    using nat_digits_shape [of n] by (cases "nat_digits n") auto
  have dig: "\<forall>x \<in> set (c # cs). is_digit x"
    using nat_digits_shape [of n] s digit_char_props(1) by auto
  then have f: "filter is_digit (c # cs) = c # cs" by simp
  have "digits_value (digit_val c) cs = digits_value 0 (c # cs)"
    by (simp add: digits_value_def)
  then have v: "scan_digits False (digit_val c) cs = Some n"
    using dig s digits_value_nat_digits [of n] by (simp add: scan_all_digits)
  have "unsigned (c # cs) = Some n"
    unfolding unsigned_def using dig v assms s
    by (simp only: f list.case option.case) simp
  with s show ?thesis by simp
qed

lemma strip_id:
  assumes "s \<noteq> []" "\<not> is_space (hd s)" "\<not> is_space (last s)"
  shows "strip s = s"
proof -
  from assms have "dropWhile is_space s = s" by (cases s) auto
  moreover from assms have "dropWhile is_space (rev s) = rev s"
    by (cases "rev s") (auto simp: last_rev hd_rev)
  ultimately show ?thesis by (simp add: strip_def)
qed

lemma nat_digits_ends:
  "\<not> is_space (hd (nat_digits n))" "\<not> is_space (last (nat_digits n))"
  "hd (nat_digits n) \<noteq> CHR ''-''" "hd (nat_digits n) \<noteq> CHR ''+''"
proof -
  have ne: "nat_digits n \<noteq> []" using nat_digits_shape by blast
  then have h: "hd (nat_digits n) \<in> set (nat_digits n)" and l: "last (nat_digits n) \<in> set (nat_digits n)"
    by simp_all
  from h obtain d where "d < 10" "hd (nat_digits n) = digit_char d"
    using nat_digits_shape [of n] by blast
  then show "\<not> is_space (hd (nat_digits n))" "hd (nat_digits n) \<noteq> CHR ''-''" "hd (nat_digits n) \<noteq> CHR ''+''"
    by (simp_all add: digit_char_props)
  from l obtain e where "e < 10" "last (nat_digits n) = digit_char e"
    using nat_digits_shape [of n] by blast
  then show "\<not> is_space (last (nat_digits n))"
    by (simp add: digit_char_props)
qed

lemma py_str_within:
  assumes "within_digit_limit i"
  shows "\<exists>t. py_str i = Inr t \<and> t \<noteq> [] \<and> py_int t = Some i"
proof (cases "i < 0")
  case True
  let ?ds = "nat_digits (nat \<bar>i\<bar>)"
  have l: "length ?ds \<le> int_max_str_digits"
    using assms by (simp add: within_digit_limit_def)
  have ne: "?ds \<noteq> []" using nat_digits_shape by blast
  have "\<not> is_space CHR ''-''" by (simp add: is_space_def)
  then have "strip (CHR ''-'' # ?ds) = CHR ''-'' # ?ds"
    using ne nat_digits_ends(2) [of "nat \<bar>i\<bar>"] by (intro strip_id) simp_all
  then have "py_int (CHR ''-'' # ?ds) = Some i"
    using True unsigned_nat_digits [OF l] by (simp add: py_int_def)
  moreover have "py_str i = Inr (CHR ''-'' # ?ds)"
    using True l by (simp add: py_str_def Let_def)
  ultimately show ?thesis by simp
next
  case False
  let ?ds = "nat_digits (nat \<bar>i\<bar>)"
  have l: "length ?ds \<le> int_max_str_digits"
    using assms by (simp add: within_digit_limit_def)
  obtain c cs where s: "?ds = c # cs"
    using nat_digits_shape [of "nat \<bar>i\<bar>"] by (cases ?ds) auto
  have "strip ?ds = ?ds"
    using nat_digits_shape [of "nat \<bar>i\<bar>"] nat_digits_ends(1,2) [of "nat \<bar>i\<bar>"]
    by (intro strip_id) simp_all
  moreover have "c \<noteq> CHR ''-''" "c \<noteq> CHR ''+''"
    using nat_digits_ends(3,4) [of "nat \<bar>i\<bar>"] s by simp_all
  moreover have "unsigned (c # cs) = Some (nat \<bar>i\<bar>)"
    using unsigned_nat_digits [OF l] s by simp
  ultimately have "py_int (c # cs) = Some i"
    using False s by (simp add: py_int_def)
  then have "py_int ?ds = Some i" using s by simp
  moreover have "py_str i = Inr ?ds"
    using False l by (simp add: py_str_def Let_def)
  ultimately show ?thesis using s by simp
qed

lemma nat_digits_length: "0 < k \<Longrightarrow> length (nat_digits n) \<le> k \<longleftrightarrow> n < 10 ^ k"
proof (induction n arbitrary: k rule: nat_digits.induct)
  case (1 n)
  show ?case
  proof (cases "n < 10")
    case True
    have "(10::nat) ^ 1 \<le> 10 ^ k" using 1(2) by (intro power_increasing) simp_all
    with True have "n < 10 ^ k" by simp
    with True 1(2) show ?thesis by (subst nat_digits.simps) simp
  next
    case False
    show ?thesis
    proof (cases "k = 1")
      case True
      with False show ?thesis
        using nat_digits_shape [of "n div 10"]
        by (subst nat_digits.simps) (auto simp: Suc_le_eq)
    next
      case k: False
      with 1(2) obtain j where j: "k = Suc j" "0 < j" by (cases k) auto
      have "length (nat_digits (n div 10)) \<le> j \<longleftrightarrow> n div 10 < 10 ^ j"
        using False j by (intro 1(1)) simp_all
      moreover have "n div 10 < 10 ^ j \<longleftrightarrow> n < 10 ^ Suc j"
        by (simp add: less_mult_imp_div_less div_less_iff_less_mult mult.commute)
      ultimately show ?thesis
        using False j by (subst nat_digits.simps) simp
    qed
  qed
qed

lemma py_str_power_of_ten:
  assumes "0 < k"
  shows "k < length (nat_digits (nat \<bar>10 ^ k :: int\<bar>))"
proof -
  have e: "nat \<bar>10 ^ k :: int\<bar> = 10 ^ k"
    by (simp add: nat_power_eq)
  have "\<not> length (nat_digits (10 ^ k)) \<le> k"
    using nat_digits_length [OF assms, of "10 ^ k"] by simp
  then show ?thesis unfolding e by (simp only: not_le)
qed

lemma py_str_beyond_limit: "py_str (10 ^ int_max_str_digits) = Inl ValueError"
proof -
  have "0 < int_max_str_digits" by (simp add: int_max_str_digits_def)
  then have "int_max_str_digits < length (nat_digits (nat \<bar>10 ^ int_max_str_digits :: int\<bar>))"
    by (rule py_str_power_of_ten)
  then show ?thesis
    unfolding py_str_def Let_def by (simp only: if_True)
qed

subsection \<open>Padding\<close>

lemma pad_row_full: "29 \<le> length row \<Longrightarrow> pad_row row = row"
  by (subst pad_row.simps) simp

lemma pad_row_eq: "pad_row row = row @ replicate (29 - length row) []"
proof (induction row rule: pad_row.induct)
  case (1 row)
  show ?case
  proof (cases "length row < 29")
    case True
    then have "29 - length row = Suc (29 - length (row @ [[]]))" by simp
    with 1 True show ?thesis
      by (subst pad_row.simps) (simp add: replicate_app_Cons_same)
  next
    case False
    then show ?thesis by (subst pad_row.simps) simp
  qed
qed

lemma pad_row_nth:
  "i < 29 \<Longrightarrow> pad_row row ! i = (if i < length row then row ! i else [])"
  by (simp add: pad_row_eq nth_append)

lemma cell_pad_row: "i < 29 \<Longrightarrow> pad_row row ! i = cell row i"
  by (simp add: pad_row_nth cell_def)

lemma encode_sample_response: "encode_row sample_response = Inr sample_row"
  by code_simp

subsection \<open>Round trip through a row\<close>

text \<open>
  C1. As stated the claim fails: a multi-select answer that is the one-element list
  holding the empty string has no element containing \<^verbatim>\<open>", "\<close>, is written as the
  empty cell, and is read back as the empty list. And a response whose satisfaction has
  more decimal digits than the interpreter's limit is not encoded at all: \<^verbatim>\<open>str\<close>
  raises.
\<close>

theorem decode_encode_row_counterexample:
  "list_all plain_choices (multi_valued empty_choice_response)
   \<and> decode_encoded empty_choice_response \<noteq> Inr empty_choice_response
   \<and> list_all plain_choices (multi_valued huge_response)
   \<and> encode_row huge_response = Inl ValueError
   \<and> decode_encoded huge_response \<noteq> Inr huge_response"
proof -
  have a: "list_all plain_choices (multi_valued empty_choice_response)
      \<and> decode_encoded empty_choice_response \<noteq> Inr empty_choice_response"
    by code_simp
  have b: "list_all plain_choices (multi_valued huge_response)"
    by (simp add: huge_response_def blank_response_def multi_valued_def plain_choices_def)
  have c: "encode_row huge_response = Inl ValueError"
    by (simp add: encode_row_def huge_response_def py_str_beyond_limit)
  from a b c show ?thesis by (simp add: decode_encoded_def)
qed

text \<open>
  C1, amended. For every response in which no element of a multi-select answer contains
  \<^verbatim>\<open>", "\<close>, no multi-select answer is the one-element list holding the empty
  string, and the satisfaction has no more decimal digits than the interpreter's limit,
  the response is encoded, and decoding the encoded row gives back the response, field
  for field, the multi-select answers as the same lists in the same order.
\<close>

theorem decode_encode_row:
  assumes "list_all (\<lambda>xs. plain_choices xs \<and> xs \<noteq> [[]]) (multi_valued r)"
    and "within_digit_limit (satisfaction r)"
  shows "decode_encoded r = Inr r"
proof -
  have c: "choices_of (str_join delim (support_gaps r)) = support_gaps r"
    "choices_of (str_join delim (financial_impact r)) = financial_impact r"
    "choices_of (str_join delim (academic_impact r)) = academic_impact r"
    "choices_of (str_join delim (support_needs r)) = support_needs r"
    "choices_of (str_join delim (retreat_priorities r)) = retreat_priorities r"
    using assms(1) by (simp_all add: multi_valued_def plain_choices_def choices_of_join)
  obtain t where t: "py_str (satisfaction r) = Inr t" "t \<noteq> []" "py_int t = Some (satisfaction r)"
    using py_str_within [OF assms(2)] by blast
  then have st: "satisfaction_of t = Inr (satisfaction r)"
    by (simp add: satisfaction_of_def)
  obtain row where row: "encode_row r = Inr row" "length row = 29"
    using t(1) by (simp add: encode_row_def)
  then have p: "pad_row row = row" by (intro pad_row_full) simp
  have "decode_row row = Inr r"
    using row(1) t(1) unfolding decode_row_def p Let_def
    by (auto simp: encode_row_def st c)
  with row(1) show ?thesis by (simp add: decode_encoded_def)
qed

theorem decode_encode_row_witness:
  "list_all (\<lambda>xs. plain_choices xs \<and> xs \<noteq> [[]]) (multi_valued sample_response)
   \<and> within_digit_limit (satisfaction sample_response)
   \<and> decode_encoded sample_response = Inr sample_response"
proof -
  have h: "list_all (\<lambda>xs. plain_choices xs \<and> xs \<noteq> [[]]) (multi_valued sample_response)"
    by code_simp
  have l: "within_digit_limit (satisfaction sample_response)"
    by code_simp
  show ?thesis using h l decode_encode_row [OF h l] by simp
qed

subsection \<open>Columns beyond the 29th\<close>

text \<open>
  C10. For every row with more than 29 entries, decoding ignores the entries beyond
  position 29: the result is that of decoding the first 29 entries alone.
\<close>

theorem decode_row_ignores_extra:
  assumes "29 < length row"
  shows "decode_row row = decode_row (take 29 row)"
proof -
  from assms have "pad_row row = row" by (intro pad_row_full) simp
  moreover from assms have "pad_row (take 29 row) = take 29 row"
    by (intro pad_row_full) simp
  ultimately show ?thesis
    unfolding decode_row_def Let_def by (simp split: sum.split)
qed

theorem decode_row_ignores_extra_witness:
  "29 < length (sample_row @ [''extra''])
   \<and> decode_row (sample_row @ [''extra''])
       = decode_row (take 29 (sample_row @ [''extra'']))"
proof -
  have h: "29 < length (sample_row @ [''extra''])"
    by (simp add: sample_row_def)
  show ?thesis using h decode_row_ignores_extra [OF h] by simp
qed

subsection \<open>The decoded satisfaction\<close>

lemma decoded_satisfaction_eq:
  "decoded_satisfaction row = satisfaction_of (cell row 5)"
  by (simp add: decoded_satisfaction_def decode_row_def Let_def cell_pad_row split: sum.split)

text \<open>
  C2. As stated the claim fails: the cell \<^verbatim>\<open>7\<close> is decoded to the satisfaction 7, which
  is not one of 1..5, and the cell \<^verbatim>\<open>abc\<close> is not decoded to 3.
\<close>

theorem decoded_satisfaction_counterexample:
  "decoded_satisfaction seven_row = Inr 7 \<and> (7::int) \<notin> {1..5}
   \<and> decoded_satisfaction corrupt_row \<noteq> Inr 3"
  by code_simp

text \<open>
  C2, amended. When the satisfaction cell is absent (the row has fewer than six entries)
  or empty, the decoded satisfaction is 3; when it is non-empty text that parses as the
  integer \<open>n\<close>, the decoded satisfaction is \<open>n\<close>, whatever its value.
\<close>

theorem decoded_satisfaction_cases:
  "(length row \<le> 5 \<longrightarrow> decoded_satisfaction row = Inr 3)
   \<and> (5 < length row \<and> row ! 5 = [] \<longrightarrow> decoded_satisfaction row = Inr 3)
   \<and> (5 < length row \<and> row ! 5 \<noteq> [] \<and> py_int (row ! 5) = Some n
        \<longrightarrow> decoded_satisfaction row = Inr n)"
  by (simp add: decoded_satisfaction_eq satisfaction_of_def cell_def)

theorem decoded_satisfaction_cases_witness:
  "(length short_row \<le> 5 \<and> decoded_satisfaction short_row = Inr 3)
   \<and> (5 < length empty_cell_row \<and> empty_cell_row ! 5 = []
        \<and> decoded_satisfaction empty_cell_row = Inr 3)
   \<and> (5 < length seven_row \<and> seven_row ! 5 \<noteq> [] \<and> py_int (seven_row ! 5) = Some 7
        \<and> decoded_satisfaction seven_row = Inr 7)"
proof -
  have a: "length short_row \<le> 5" by (simp add: short_row_def)
  have b: "5 < length empty_cell_row \<and> empty_cell_row ! 5 = []"
    by (simp add: empty_cell_row_def)
  have c: "5 < length seven_row \<and> seven_row ! 5 \<noteq> [] \<and> py_int (seven_row ! 5) = Some 7"
    by code_simp
  from a b c show ?thesis
    using decoded_satisfaction_cases [of short_row 0]
      decoded_satisfaction_cases [of empty_cell_row 0]
      decoded_satisfaction_cases [of seven_row 7]
    by blast
qed

subsection \<open>When decoding raises\<close>

lemma decode_row_cells:
  assumes "satisfaction_of (cell row 5) = Inr n"
  shows "\<exists>r. decode_row row = Inr r \<and> satisfaction r = n
    \<and> text_fields r = map (cell row) text_columns
    \<and> multi_valued r = map (\<lambda>i. choices_of (cell row i)) choice_columns"
  using assms
  by (simp add: decode_row_def Let_def cell_pad_row text_fields_def text_columns_def
      multi_valued_def choice_columns_def)

lemma decode_row_returns:
  assumes "cell_parses row"
  shows "\<exists>r. decode_row row = Inr r
    \<and> satisfaction_of (cell row 5) = Inr (satisfaction r)
    \<and> text_fields r = map (cell row) text_columns
    \<and> multi_valued r = map (\<lambda>i. choices_of (cell row i)) choice_columns"
proof -
  from assms have "\<exists>n. satisfaction_of (cell row 5) = Inr n"
    by (cases "py_int (cell row 5)") (auto simp: cell_parses_def satisfaction_of_def)
  then obtain n where n: "satisfaction_of (cell row 5) = Inr n" ..
  from decode_row_cells [OF n] n show ?thesis by auto
qed

lemma decode_rows_return:
  "list_all cell_parses rows \<Longrightarrow>
   \<exists>rs. decode_rows rows = Inr rs \<and> map Inr rs = map decode_row rows"
proof (induction rows)
  case Nil
  show ?case by simp
next
  case (Cons row rows)
  then obtain rs where rs: "decode_rows rows = Inr rs" "map Inr rs = map decode_row rows"
    by auto
  from Cons.prems obtain r where r: "decode_row row = Inr r"
    using decode_row_returns [of row] by auto
  have "decode_rows (row # rows) = Inr (r # rs)" using r rs by simp
  moreover have "map Inr (r # rs) = map decode_row (row # rows)" using r rs by simp
  ultimately show ?case by blast
qed

text \<open>
  C3. As stated the claim fails: on a row whose satisfaction cell is \<^verbatim>\<open>abc\<close> the
  decoding raises \<^verbatim>\<open>ValueError\<close>; the loop over the sheet ends there, and
  \<^verbatim>\<open>load_from_sheets\<close> returns the empty list although the other rows are sound.
\<close>

theorem decode_never_raises_counterexample:
  "decode_row corrupt_row = Inl ValueError
   \<and> decode_rows corrupt_sheet = Inl ValueError
   \<and> fst (load_from_sheets True Responds (fresh_app \<lparr> sheet := corrupt_sheet \<rparr>)) = []"
  by code_simp

text \<open>
  C3, amended. On every row whose satisfaction cell is absent, empty or text that parses
  as an integer, however short or long the row and whatever its other cells hold,
  decoding raises nothing and returns a response: its text fields are the cells of
  their columns and its multi-select answers the split cells of theirs, a missing cell
  read as the empty string, and its satisfaction is what the satisfaction cell gives.
  When every row of the sheet is such a row, the loop decodes all of them, one response
  for each row, in order.
\<close>

theorem decode_returns_when_cell_parses:
  "(cell_parses row \<longrightarrow>
      (\<exists>r. decode_row row = Inr r
         \<and> satisfaction_of (cell row 5) = Inr (satisfaction r)
         \<and> text_fields r = map (cell row) text_columns
         \<and> multi_valued r = map (\<lambda>i. choices_of (cell row i)) choice_columns))
   \<and> (list_all cell_parses rows \<longrightarrow>
        (\<exists>rs. decode_rows rows = Inr rs \<and> map Inr rs = map decode_row rows))"
  using decode_row_returns [of row] decode_rows_return [of rows] by blast

theorem decode_returns_when_cell_parses_witness:
  "cell_parses short_row
   \<and> (\<exists>r. decode_row short_row = Inr r
         \<and> satisfaction_of (cell short_row 5) = Inr (satisfaction r)
         \<and> text_fields r = map (cell short_row) text_columns
         \<and> multi_valued r = map (\<lambda>i. choices_of (cell short_row i)) choice_columns)
   \<and> list_all cell_parses good_sheet
   \<and> (\<exists>rs. decode_rows good_sheet = Inr rs \<and> map Inr rs = map decode_row good_sheet)"
proof -
  have a: "cell_parses short_row" by code_simp
  have b: "list_all cell_parses good_sheet" by code_simp
  from a b show ?thesis
    using decode_returns_when_cell_parses [of short_row good_sheet] by blast
qed

section \<open>Properties of the handlers\<close>

subsection \<open>Submitting while the sheet cannot be written\<close>

text \<open>
  C4. With the sheet enabled, when the save to the sheet fails (no service, or the
  request raises), submitting a response still appends it to the session's responses,
  where it is found afterwards; the sheet is unchanged; the script reports the warning
  "saved locally" and goes on to the closing success message. The error shown by
  \<^verbatim>\<open>save_to_sheets\<close> is a message on the screen; nothing is raised.
\<close>

theorem submit_keeps_record_when_remote_fails:
  assumes "be \<noteq> Responds"
  shows "responses (submit_assessment True be r s) = responses s @ [r]
    \<and> r \<in> set (responses (submit_assessment True be r s))
    \<and> sheet (submit_assessment True be r s) = sheet s
    \<and> map level_of (shown (submit_assessment True be r s))
        = map level_of (shown s) @ [Error, Warning, Success]
    \<and> Saved_locally_only \<in> set (shown (submit_assessment True be r s))
    \<and> level_of Saved_locally_only = Warning
    \<and> last (shown (submit_assessment True be r s)) = Assessment_recorded"
  using assms
  by (cases be)
    (simp_all add: submit_assessment_def save_to_sheets_def display_def Let_def split: sum.split)

theorem submit_keeps_record_when_remote_fails_witness:
  "Request_fails timeout_error \<noteq> Responds
   \<and> responses (submit_assessment True (Request_fails timeout_error) sample_response stale_app)
       = responses stale_app @ [sample_response]
   \<and> Saved_locally_only \<in> set (shown (submit_assessment True (Request_fails timeout_error) sample_response stale_app))"
proof -
  have h: "Request_fails timeout_error \<noteq> Responds" by simp
  show ?thesis
    using h submit_keeps_record_when_remote_fails [OF h, of sample_response stale_app] by simp
qed

subsection \<open>Refreshing from the sheet\<close>

lemma load_from_sheets_frame:
  "fst (load_from_sheets use be (s \<lparr> responses := old \<rparr>)) = fst (load_from_sheets use be s)"
  by (cases be) (simp_all add: load_from_sheets_def display_def split: sum.split)

text \<open>
  C5. With the sheet enabled, the refresh puts the result of the load in place of the
  session's responses, whatever they were before: the responses decoded from the rows
  read; and when the read fails or returns no rows, the empty list.
\<close>

theorem refresh_replaces_local_store:
  "responses (refresh_data True True be (s \<lparr> responses := old \<rparr>))
     = responses (refresh_data True True be s)
   \<and> (be = Responds \<and> decode_rows (sheet s) = Inr rs
        \<longrightarrow> responses (refresh_data True True be s) = rs)
   \<and> (be \<noteq> Responds \<or> sheet s = [] \<longrightarrow> responses (refresh_data True True be s) = [])"
proof -
  have r: "responses (refresh_data True True be t) = fst (load_from_sheets True be t)" for t
    by (simp add: refresh_data_def display_def split: prod.split)
  have a: "fst (load_from_sheets True be s) = rs"
    if "be = Responds" "decode_rows (sheet s) = Inr rs"
    using that by (cases "sheet s") (auto simp: load_from_sheets_def)
  have b: "fst (load_from_sheets True be s) = []" if "be \<noteq> Responds \<or> sheet s = []"
    using that by (cases be) (auto simp: load_from_sheets_def display_def split: sum.split)
  show ?thesis
    unfolding r load_from_sheets_frame using a b by blast
qed

theorem refresh_replaces_local_store_witness:
  "responses (refresh_data True True Responds stale_app) = decoded_good_sheet
   \<and> decode_rows (sheet stale_app) = Inr decoded_good_sheet
   \<and> responses stale_app \<noteq> decoded_good_sheet
   \<and> Request_fails timeout_error \<noteq> Responds
   \<and> responses (refresh_data True True (Request_fails timeout_error) stale_app) = []"
proof -
  have d: "decode_rows (sheet stale_app) = Inr decoded_good_sheet" by code_simp
  have n: "responses stale_app \<noteq> decoded_good_sheet" by code_simp
  have f: "Request_fails timeout_error \<noteq> Responds" by simp
  show ?thesis
    using d n f
      refresh_replaces_local_store [where be = Responds and s = stale_app and rs = decoded_good_sheet]
      refresh_replaces_local_store [where be = "Request_fails timeout_error" and s = stale_app]
    by blast
qed

subsection \<open>Clearing\<close>

lemma load_from_sheets_sheet:
  "load_from_sheets use be s = (rs, s') \<Longrightarrow> sheet s' = sheet s"
  by (cases be) (auto simp: load_from_sheets_def display_def split: sum.splits if_splits)

lemma admin_page_sheet: "sheet (fst (admin_page use pw parses be w s)) = sheet s"
proof (cases "load_from_sheets use be (display Logged_in_as_admin s)")
  case (Pair rs s2)
  then have "sheet s2 = sheet s"
    using load_from_sheets_sheet [of use be "display Logged_in_as_admin s" rs s2]
    by (simp add: display_def)
  with Pair show ?thesis
    by (auto simp: admin_page_def Let_def display_def)
qed

text \<open>
  C9. The clear of the admin page empties the session's responses and changes nothing
  else of the state but the messages on the screen: it ends without an exception, the
  login is as before, and the rows of the sheet are as before (no run of the admin page
  changes them). The clear is performed by a run of the page with the admin logged in
  that gets as far as the clear button (no sync and no logout in this run, and the
  timestamp of the last response, if there is one, is accepted by
  \<^verbatim>\<open>datetime.fromisoformat\<close>), with the button pressed and the checkbox ticked.
\<close>

theorem clear_empties_local_store_only:
  "sheet (fst (admin_page use pw parses be w s)) = sheet s
   \<and> (admin_logged_in s \<and> \<not> (use \<and> sync_clicked w) \<and> \<not> logout_clicked w
        \<and> (responses s = [] \<or> parses (timestamp (last (responses s))))
        \<and> clear_clicked w \<and> understood_checked w
      \<longrightarrow> snd (admin_page use pw parses be w s) = None
        \<and> responses (fst (admin_page use pw parses be w s)) = []
        \<and> admin_logged_in (fst (admin_page use pw parses be w s)) = admin_logged_in s
        \<and> last (shown (fst (admin_page use pw parses be w s))) = All_cleared)"
proof -
  have "snd (admin_page use pw parses be w s) = None
        \<and> responses (fst (admin_page use pw parses be w s)) = []
        \<and> admin_logged_in (fst (admin_page use pw parses be w s)) = admin_logged_in s
        \<and> last (shown (fst (admin_page use pw parses be w s))) = All_cleared"
    if "admin_logged_in s" "\<not> (use \<and> sync_clicked w)" "\<not> logout_clicked w"
      "responses s = [] \<or> parses (timestamp (last (responses s)))"
      "clear_clicked w" "understood_checked w"
    using that by (auto simp: admin_page_def Let_def display_def)
  then show ?thesis using admin_page_sheet by blast
qed

theorem clear_empties_local_store_only_witness:
  "admin_logged_in admin_app \<and> responses admin_app \<noteq> []
   \<and> accepts_sample_timestamp (timestamp (last (responses admin_app)))
   \<and> clear_clicked clear_run \<and> understood_checked clear_run
   \<and> snd (admin_page True ''UTechAdmin2024'' accepts_sample_timestamp Responds clear_run admin_app) = None
   \<and> responses (fst (admin_page True ''UTechAdmin2024'' accepts_sample_timestamp Responds clear_run admin_app)) = []
   \<and> sheet (fst (admin_page True ''UTechAdmin2024'' accepts_sample_timestamp Responds clear_run admin_app)) = good_sheet"
proof -
  have h: "admin_logged_in admin_app \<and> \<not> (True \<and> sync_clicked clear_run)
      \<and> \<not> logout_clicked clear_run
      \<and> (responses admin_app = []
          \<or> accepts_sample_timestamp (timestamp (last (responses admin_app))))
      \<and> clear_clicked clear_run \<and> understood_checked clear_run"
    by code_simp
  have n: "responses admin_app \<noteq> []
      \<and> accepts_sample_timestamp (timestamp (last (responses admin_app)))
      \<and> sheet admin_app = good_sheet"
    by code_simp
  show ?thesis
    using h n
      clear_empties_local_store_only [where use = True and pw = "''UTechAdmin2024''"
        and parses = accepts_sample_timestamp and be = Responds and w = clear_run
        and s = admin_app]
    by simp
qed

section \<open>Properties of the rounding to a float\<close>

subsection \<open>Rounding to an integer, and the exponent\<close>

lemma round_half_even_bounds:
  "of_int (round_half_even y) \<le> y + 1 / 2" "y - 1 / 2 \<le> of_int (round_half_even y)"
proof -
  define f where "f = \<lfloor>y\<rfloor>"
  have f: "of_int f \<le> y" "y < of_int f + 1" unfolding f_def by linarith+
  have r: "round_half_even y
      = (if y - of_int f < 1 / 2 then f else if 1 / 2 < y - of_int f then f + 1
         else if even f then f else f + 1)"
    by (simp add: round_half_even_def Let_def f_def)
  show "of_int (round_half_even y) \<le> y + 1 / 2"
  proof (cases "y - of_int f < 1 / 2")
    case True
    with f r show ?thesis by simp
  next
    case False
    then have "of_int f + 1 \<le> y + 1 / 2" by linarith
    moreover have "round_half_even y \<le> f + 1" using r by simp
    then have "(of_int (round_half_even y) :: rat) \<le> of_int f + 1"
      by (metis of_int_le_iff of_int_add of_int_1)
    ultimately show ?thesis by linarith
  qed
  show "y - 1 / 2 \<le> of_int (round_half_even y)"
  proof (cases "1 / 2 < y - of_int f")
    case True
    with r have "round_half_even y = f + 1" by simp
    with f show ?thesis by simp
  next
    case False
    then have "y - 1 / 2 \<le> of_int f" by linarith
    moreover have "f \<le> round_half_even y" using r by simp
    then have "(of_int f :: rat) \<le> of_int (round_half_even y)"
      by (simp only: of_int_le_iff)
    ultimately show ?thesis by linarith
  qed
qed

lemma round_half_even_ge:
  assumes "of_int k - 1 / 2 < y"
  shows "k \<le> round_half_even y"
proof -
  have "(of_int k :: rat) < of_int (round_half_even y) + 1"
    using assms round_half_even_bounds(2) [of y] by linarith
  then have "(of_int k :: rat) < of_int (round_half_even y + 1)" by simp
  then have "k < round_half_even y + 1" by (simp only: of_int_less_iff)
  then show ?thesis by simp
qed

lemma round_half_even_le:
  assumes "y < of_int k + 1 / 2"
  shows "round_half_even y \<le> k"
proof -
  have "(of_int (round_half_even y) :: rat) < of_int k + 1"
    using assms round_half_even_bounds(1) [of y] by linarith
  then have "(of_int (round_half_even y) :: rat) < of_int (k + 1)" by simp
  then have "round_half_even y < k + 1" by (simp only: of_int_less_iff)
  then show ?thesis by simp
qed

lemma floor_log2_bounds:
  assumes "0 < x"
  shows "2 powi floor_log2 x \<le> x" "x < 2 powi (floor_log2 x + 1)"
proof -
  obtain a b where q: "quotient_of x = (a, b)" by (cases "quotient_of x")
  then have b: "0 < b" by (rule quotient_of_denom_pos)
  have x: "x = of_int a / of_int b" using q by (rule quotient_of_div)
  with assms b have a: "0 < a" by (simp add: zero_less_divide_iff)
  define d where "d = bitlen a - bitlen b"
  have ba: "1 \<le> bitlen a" "1 \<le> bitlen b"
    using a b by (simp_all add: bitlen_alt_def)
  have "2 ^ nat (bitlen a - 1) \<le> a" "a < 2 ^ nat (bitlen a)"
    using bitlen_bounds [OF a] by simp_all
  then have "(2::rat) ^ nat (bitlen a - 1) \<le> of_int a" "(of_int a :: rat) < 2 ^ nat (bitlen a)"
    by (metis of_int_le_iff of_int_numeral of_int_power, metis of_int_less_iff of_int_numeral of_int_power)
  then have A: "(2::rat) powi (bitlen a - 1) \<le> of_int a" "(of_int a :: rat) < 2 powi bitlen a"
    using ba by (simp_all add: power_int_def)
  have "2 ^ nat (bitlen b - 1) \<le> b" "b < 2 ^ nat (bitlen b)"
    using bitlen_bounds [OF b] by simp_all
  then have "(2::rat) ^ nat (bitlen b - 1) \<le> of_int b" "(of_int b :: rat) < 2 ^ nat (bitlen b)"
    by (metis of_int_le_iff of_int_numeral of_int_power, metis of_int_less_iff of_int_numeral of_int_power)
  then have B: "(2::rat) powi (bitlen b - 1) \<le> of_int b" "(of_int b :: rat) < 2 powi bitlen b"
    using ba by (simp_all add: power_int_def)
  have pb: "(0::rat) < of_int b" using b by simp
  have up: "x < 2 powi (d + 1)"
  proof -
    have "x < 2 powi bitlen a / of_int b"
      unfolding x using A(2) pb by (simp add: divide_strict_right_mono)
    also have "\<dots> \<le> 2 powi bitlen a / 2 powi (bitlen b - 1)"
    proof (rule divide_left_mono [OF B(1)])
      show "(0::rat) \<le> 2 powi bitlen a" by simp
      show "(0::rat) < of_int b * 2 powi (bitlen b - 1)" using pb by simp
    qed
    also have "\<dots> = 2 powi (d + 1)"
      by (simp add: d_def power_int_diff [symmetric] algebra_simps)
    finally show ?thesis .
  qed
  have lo: "2 powi (d - 1) < x"
  proof -
    have "2 powi (d - 1) = 2 powi (bitlen a - 1) / (2 powi bitlen b :: rat)"
      by (simp add: d_def power_int_diff [symmetric] algebra_simps)
    also have "\<dots> < 2 powi (bitlen a - 1) / of_int b"
    proof (rule divide_strict_left_mono [OF B(2)])
      show "(0::rat) < 2 powi (bitlen a - 1)" by simp
      show "(0::rat) < 2 powi bitlen b * of_int b" using pb by simp
    qed
    also have "\<dots> \<le> x"
      unfolding x using A(1) pb by (simp add: divide_right_mono)
    finally show ?thesis .
  qed
  have e: "floor_log2 x = (if 2 powi d \<le> x then d else d - 1)"
    by (simp add: floor_log2_def q d_def Let_def)
  show "2 powi floor_log2 x \<le> x"
    using lo by (simp add: e)
  show "x < 2 powi (floor_log2 x + 1)"
    using up by (simp add: e not_le)
qed

subsection \<open>The rounded value against the exact one and against integers\<close>

lemma fl64_shape:
  assumes "1 / 4 \<le> x"
  obtains e u where "fl64 x = of_int (round_half_even (x / u)) * u"
    and "0 < u" and "u = 2 powi (e - 52)" and "2 ^ 52 * u \<le> x" and "x < 2 ^ 53 * u"
proof -
  define e where "e = floor_log2 x"
  define u :: rat where "u = 2 powi (e - 52)"
  have x: "0 < x" using assms by simp
  have lo: "2 powi e \<le> x" and up: "x < 2 powi (e + 1)"
    using floor_log2_bounds [OF x] by (simp_all add: e_def)
  have "- 2 \<le> e"
  proof (rule ccontr)
    assume "\<not> - 2 \<le> e"
    then have "e + 1 \<le> - 2" by simp
    then have "(2::rat) powi (e + 1) \<le> 2 powi (- 2)"
      by (intro power_int_increasing) simp_all
    also have "\<dots> = 1 / 4" by (simp add: power_int_minus)
    finally show False using up assms by simp
  qed
  then have m: "max e (- 1022) = e" by simp
  have u0: "0 < u" by (simp add: u_def)
  have pe: "2 powi e = 2 ^ 52 * u"
    by (simp add: u_def power_int_diff)
  have pe1: "2 powi (e + 1) = 2 ^ 53 * u"
    by (simp add: pe power_int_add)
  have "fl64 x = of_int (round_half_even (x / u)) * u"
    using x by (simp add: fl64_def Let_def m e_def [symmetric] u_def [symmetric])
  then show ?thesis
    using u0 lo up unfolding pe pe1 by (intro that [of u e]) (simp_all add: u_def)
qed

lemma fl64_near:
  assumes "1 / 4 \<le> x"
  shows "fl64 x \<le> x + x / 2 ^ 53" "x - x / 2 ^ 53 \<le> fl64 x"
proof -
  obtain e u where f: "fl64 x = of_int (round_half_even (x / u)) * u"
    and u: "0 < u" "2 ^ 52 * u \<le> x"
    using fl64_shape [OF assms] by metis
  have h: "u / 2 \<le> x / 2 ^ 53" using u(2) by simp
  have "of_int (round_half_even (x / u)) * u \<le> (x / u + 1 / 2) * u"
    using round_half_even_bounds(1) [of "x / u"] u(1) by (intro mult_right_mono) simp_all
  also have "\<dots> = x + u / 2" using u(1) by (simp add: field_simps)
  finally show "fl64 x \<le> x + x / 2 ^ 53" using h f by linarith
  have "(x / u - 1 / 2) * u \<le> of_int (round_half_even (x / u)) * u"
    using round_half_even_bounds(2) [of "x / u"] u(1) by (intro mult_right_mono) simp_all
  moreover have "(x / u - 1 / 2) * u = x - u / 2" using u(1) by (simp add: field_simps)
  ultimately show "x - x / 2 ^ 53 \<le> fl64 x" using h f by linarith
qed

lemma unit_divides_integers:
  assumes "(u::rat) = 2 powi (e - 52)" and "e \<le> 52"
  obtains m :: nat where "u * 2 ^ m = 1"
proof -
  have "e - 52 = - int (nat (52 - e))" using assms(2) by simp
  then have "u = inverse (2 powi int (nat (52 - e)))"
    using assms(1) by (simp only: power_int_minus)
  then have "u = inverse (2 ^ nat (52 - e))" by (simp only: power_int_of_nat)
  then have "u * 2 ^ nat (52 - e) = 1" by simp
  then show ?thesis by (rule that)
qed

lemma exponent_small:
  assumes "(u::rat) = 2 powi (e - 52)" and "2 ^ 52 * u \<le> x" and "x < 2 ^ 53"
  shows "e \<le> 52"
proof (rule ccontr)
  assume "\<not> e \<le> 52"
  then have "1 \<le> e - 52" by simp
  then have "(2::rat) powi 1 \<le> 2 powi (e - 52)"
    by (intro power_int_increasing) simp_all
  then have "2 \<le> u" using assms(1) by simp
  then have "(2::rat) ^ 53 \<le> 2 ^ 52 * u" by simp
  with assms(2,3) show False by linarith
qed

lemma fl64_ge_int:
  assumes "1 / 4 \<le> x" and "T < 2 ^ 53" and "of_int T - x \<le> x / 2 ^ 54"
  shows "of_int T \<le> fl64 x"
proof (cases "x < 2 ^ 53")
  case False
  have "T \<le> 2 ^ 53 - 1" using assms(2) by simp
  then have "(of_int T :: rat) \<le> of_int (2 ^ 53 - 1)"
    by (simp only: of_int_le_iff)
  also have "\<dots> = 2 ^ 53 - 1" by simp
  also have "\<dots> \<le> x - x / 2 ^ 53" using False by (simp add: field_simps)
  also have "\<dots> \<le> fl64 x" using fl64_near(2) [OF assms(1)] .
  finally show ?thesis .
next
  case True
  obtain e u where f: "fl64 x = of_int (round_half_even (x / u)) * u"
    and u: "0 < u" "u = 2 powi (e - 52)" "2 ^ 52 * u \<le> x" "x < 2 ^ 53 * u"
    using fl64_shape [OF assms(1)] by metis
  have "e \<le> 52" using u(2,3) True by (rule exponent_small)
  then obtain m :: nat where m: "u * 2 ^ m = 1"
    using unit_divides_integers [OF u(2)] by blast
  define K where "K = T * 2 ^ m"
  have K: "of_int K * u = (of_int T :: rat)"
    using m by (simp add: K_def mult.assoc mult.commute [of u])
  have "of_int T - x < u / 2" using assms(3) u(4) by simp
  then have "(of_int K - 1 / 2) * u < x"
    using K by (simp add: field_simps)
  then have "of_int K - 1 / 2 < x / u"
    using u(1) by (simp add: pos_less_divide_eq)
  then have "K \<le> round_half_even (x / u)" by (rule round_half_even_ge)
  then have "(of_int K :: rat) \<le> of_int (round_half_even (x / u))"
    by (simp only: of_int_le_iff)
  then have "of_int K * u \<le> of_int (round_half_even (x / u)) * u"
    using u(1) by (intro mult_right_mono) simp_all
  then show ?thesis using K f by simp
qed

lemma fl64_le_int:
  assumes "1 / 4 \<le> x" and "T < 2 ^ 53" and "x \<le> of_int T"
  shows "fl64 x \<le> of_int T"
proof -
  obtain e u where f: "fl64 x = of_int (round_half_even (x / u)) * u"
    and u: "0 < u" "u = 2 powi (e - 52)" "2 ^ 52 * u \<le> x" "x < 2 ^ 53 * u"
    using fl64_shape [OF assms(1)] by metis
  have "(of_int T :: rat) < of_int (2 ^ 53)"
    using assms(2) by (simp only: of_int_less_iff)
  then have "x < 2 ^ 53" using assms(3) by simp
  with u(2,3) have "e \<le> 52" by (rule exponent_small)
  then obtain m :: nat where m: "u * 2 ^ m = 1"
    using unit_divides_integers [OF u(2)] by blast
  define K where "K = T * 2 ^ m"
  have K: "of_int K * u = (of_int T :: rat)"
    using m by (simp add: K_def mult.assoc mult.commute [of u])
  have "x \<le> of_int K * u" using assms(3) K by simp
  then have "x / u \<le> of_int K" using u(1) by (simp add: pos_divide_le_eq)
  then have "x / u < of_int K + 1 / 2" by linarith
  then have "round_half_even (x / u) \<le> K" by (rule round_half_even_le)
  then have "(of_int (round_half_even (x / u)) :: rat) \<le> of_int K"
    by (simp only: of_int_le_iff)
  then have "of_int (round_half_even (x / u)) * u \<le> of_int K * u"
    using u(1) by (intro mult_right_mono) simp_all
  then show ?thesis using K f by simp
qed

lemma fl64_int:
  assumes "1 \<le> T" and "T < 2 ^ 53"
  shows "fl64 (of_int T) = of_int T"
proof -
  have "(1::rat) \<le> of_int T" using assms(1) by simp
  then have q: "(1 / 4 :: rat) \<le> of_int T" by linarith
  have p: "(0::rat) \<le> of_int T / 2 ^ 54" using assms(1) by simp
  have "fl64 (of_int T) \<le> of_int T"
    using fl64_le_int [OF q assms(2)] by simp
  moreover have "of_int T \<le> fl64 (of_int T)"
    using fl64_ge_int [OF q assms(2)] p by simp
  ultimately show ?thesis by simp
qed

section \<open>Properties of the dashboard\<close>

subsection \<open>Counting categories\<close>

lemma tally_snoc: "tally (xs @ [x]) = tally_step x (tally xs)"
  by (simp add: tally_def)

lemma keys_tally_step:
  "map fst (tally_step x kvs) = (if x \<in> fst ` set kvs then map fst kvs else map fst kvs @ [x])"
  by (induction x kvs rule: tally_step.induct) auto

lemma map_of_tally_step:
  "map_of (tally_step x kvs) = (map_of kvs)(x \<mapsto> (case map_of kvs x of None \<Rightarrow> 1 | Some n \<Rightarrow> n + 1))"
  by (induction x kvs rule: tally_step.induct) (auto simp: fun_eq_iff)

lemma keys_tally: "set (map fst (tally xs)) = set xs \<and> distinct (map fst (tally xs))"
proof (induction xs rule: rev_induct)
  case Nil
  show ?case by (simp add: tally_def)
next
  case (snoc x xs)
  then show ?case by (auto simp: tally_snoc keys_tally_step)
qed

lemma map_of_tally:
  "map_of (tally xs) k = (if k \<in> set xs then Some (count_list xs k) else None)"
proof (induction xs rule: rev_induct)
  case Nil
  show ?case by (simp add: tally_def)
next
  case (snoc x xs)
  then show ?case
    by (auto simp: tally_snoc map_of_tally_step)
qed

lemma set_tally: "set (tally xs) = (\<lambda>k. (k, count_list xs k)) ` set xs"
proof -
  have d: "distinct (map fst (tally xs))" using keys_tally by blast
  have "(k, n) \<in> set (tally xs) \<longleftrightarrow> k \<in> set xs \<and> n = count_list xs k" for k n
  proof -
    have "(k, n) \<in> set (tally xs) \<longleftrightarrow> map_of (tally xs) k = Some n"
      using map_of_eq_Some_iff [OF d] by simp
    also have "\<dots> \<longleftrightarrow> k \<in> set xs \<and> n = count_list xs k"
      by (auto simp: map_of_tally)
    finally show ?thesis .
  qed
  then show ?thesis by auto
qed

lemma first_pos_snoc_old: "k \<in> set xs \<Longrightarrow> first_pos (xs @ [x]) k = first_pos xs k"
  by (simp add: first_pos_def)

lemma first_pos_snoc_new:
  assumes "x \<notin> set xs"
  shows "first_pos (xs @ [x]) x = length xs"
proof -
  have "takeWhile (\<lambda>y. y \<noteq> x) (xs @ [x]) = xs @ takeWhile (\<lambda>y. y \<noteq> x) [x]"
    using assms by (intro takeWhile_append2) auto
  then show ?thesis by (simp add: first_pos_def)
qed

lemma first_pos_less: "k \<in> set xs \<Longrightarrow> first_pos xs k < length xs"
  by (induction xs) (auto simp: first_pos_def)

lemma keys_in_first_seen_order:
  "sorted_wrt (\<lambda>a b. first_pos xs a < first_pos xs b) (map fst (tally xs))"
proof (induction xs rule: rev_induct)
  case Nil
  show ?case by (simp add: tally_def)
next
  case (snoc x xs)
  let ?ks = "map fst (tally xs)"
  have ks: "set ?ks = set xs" using keys_tally [of xs] by blast
  have old: "sorted_wrt (\<lambda>a b. first_pos (xs @ [x]) a < first_pos (xs @ [x]) b) ?ks"
    using snoc ks by (auto intro: sorted_wrt_mono_rel [rotated] simp: first_pos_snoc_old)
  show ?case
  proof (cases "x \<in> set xs")
    case True
    with old ks show ?thesis by (simp add: tally_snoc keys_tally_step)
  next
    case False
    have "first_pos (xs @ [x]) a < first_pos (xs @ [x]) x" if "a \<in> set xs" for a
      using that False by (simp add: first_pos_snoc_old first_pos_snoc_new first_pos_less)
    with old ks False show ?thesis
      by (simp add: tally_snoc keys_tally_step sorted_wrt_append)
  qed
qed

lemma tally_in_first_seen_order: "sorted_wrt (seen_before xs) (tally xs)"
  using keys_in_first_seen_order [of xs] by (simp add: sorted_wrt_map seen_before_def [abs_def])

lemma value_counts_set: "set (value_counts xs) = (\<lambda>k. (k, count_list xs k)) ` set xs"
  by (simp add: value_counts_def set_tally)

lemma value_counts_distinct: "distinct (map fst (value_counts xs))"
proof -
  have "distinct (map fst (tally xs))" using keys_tally by blast
  then have "distinct (tally xs) \<and> inj_on fst (set (tally xs))" by (simp add: distinct_map)
  then show ?thesis by (simp add: value_counts_def distinct_map)
qed

lemma value_counts_descending: "sorted_wrt (\<lambda>a b. snd a \<ge> snd b) (value_counts xs)"
proof -
  have "sorted (map (\<lambda>kv. - int (snd kv)) (value_counts xs))"
    unfolding value_counts_def by (rule sorted_sort_key)
  then show ?thesis by (simp add: sorted_wrt_map)
qed

lemma value_counts_ties:
  "sorted_wrt (seen_before xs) (filter (\<lambda>kv. snd kv = c) (value_counts xs))"
proof -
  have "filter (\<lambda>kv. - int (snd kv) = - int c) (value_counts xs)
        = filter (\<lambda>kv. - int (snd kv) = - int c) (tally xs)"
    unfolding value_counts_def by (rule sort_key_stable)
  then have "filter (\<lambda>kv. snd kv = c) (value_counts xs) = filter (\<lambda>kv. snd kv = c) (tally xs)"
    by simp
  then show ?thesis by (simp add: sorted_wrt_filter tally_in_first_seen_order)
qed

lemma sorted_wrt_take_filter:
  assumes "sorted_wrt R (filter P ys)"
  shows "sorted_wrt R (filter P (take n ys))"
proof -
  have "filter P ys = filter P (take n ys) @ filter P (drop n ys)"
    by (metis append_take_drop_id filter_append)
  with assms show ?thesis by (simp add: sorted_wrt_append)
qed

subsection \<open>Rounded and exact comparisons\<close>

lemma sum_in_range:
  "list_all in_range rs \<Longrightarrow>
   int (length rs) \<le> sum_list (map satisfaction rs) \<and> sum_list (map satisfaction rs) \<le> 5 * int (length rs)"
  by (induction rs) (auto simp: in_range_def)

lemma mean_in_range:
  assumes "rs \<noteq> []" and "list_all in_range rs"
  shows "1 \<le> mean_satisfaction rs" "mean_satisfaction rs \<le> 5"
proof -
  have n: "(0::rat) < of_nat (length rs)" using assms(1) by simp
  have "(of_int (int (length rs)) :: rat) \<le> of_int (sum_list (map satisfaction rs))"
    "(of_int (sum_list (map satisfaction rs)) :: rat) \<le> of_int (5 * int (length rs))"
    using sum_in_range [OF assms(2)] by (simp_all only: of_int_le_iff)
  then have s: "(of_nat (length rs) :: rat) \<le> of_int (sum_list (map satisfaction rs))"
    "(of_int (sum_list (map satisfaction rs)) :: rat) \<le> 5 * of_nat (length rs)"
    by simp_all
  show "1 \<le> mean_satisfaction rs"
    using s(1) n by (simp add: mean_satisfaction_def pos_le_divide_eq)
  show "mean_satisfaction rs \<le> 5"
    using s(2) n by (simp add: mean_satisfaction_def pos_divide_le_eq)
qed

lemma fl64_mean_below_three:
  assumes "rs \<noteq> []" and "length rs < 2 ^ 50" and "list_all in_range rs"
  shows "fl64 (mean_satisfaction rs) < 3 \<longleftrightarrow> mean_satisfaction rs < 3"
proof
  let ?q = "mean_satisfaction rs"
  have q: "1 / 4 \<le> ?q" using mean_in_range(1) [OF assms(1,3)] by linarith
  assume below: "fl64 ?q < 3"
  show "?q < 3"
  proof (rule ccontr)
    assume "\<not> ?q < 3"
    then have "of_int 3 - ?q \<le> ?q / 2 ^ 54" by simp
    then have "of_int 3 \<le> fl64 ?q"
      using q by (intro fl64_ge_int) simp_all
    with below show False by simp
  qed
next
  let ?q = "mean_satisfaction rs"
  have q: "1 / 4 \<le> ?q" using mean_in_range(1) [OF assms(1,3)] by linarith
  assume lt: "?q < 3"
  define s where "s = sum_list (map satisfaction rs)"
  define n where "n = length rs"
  have n: "(0::rat) < of_nat n" "(of_nat n :: rat) < 2 ^ 50"
    using assms(1,2) by (simp_all add: n_def of_nat_less_numeral_power_cancel_iff)
  have "(of_int s :: rat) < 3 * of_nat n"
    using lt n(1) by (simp add: mean_satisfaction_def s_def n_def pos_divide_less_eq)
  then have "(of_int s :: rat) < of_int (3 * int n)" by simp
  then have "s < 3 * int n" by (simp only: of_int_less_iff)
  then have "s + 1 \<le> 3 * int n" by simp
  then have "(of_int (s + 1) :: rat) \<le> of_int (3 * int n)" by (simp only: of_int_le_iff)
  then have "(of_int s :: rat) + 1 \<le> 3 * of_nat n" by simp
  then have "?q + 1 / of_nat n \<le> 3"
    using n(1) by (simp add: mean_satisfaction_def s_def n_def field_simps)
  moreover have "?q / 2 ^ 53 < 1 / of_nat n"
  proof -
    have "?q / 2 ^ 53 < 3 / 2 ^ 53" using lt by simp
    also have "\<dots> \<le> 1 / 2 ^ 50" by simp
    also have "\<dots> < 1 / of_nat n"
      using n by (intro divide_strict_left_mono) simp_all
    finally show ?thesis .
  qed
  ultimately show "fl64 ?q < 3"
    using fl64_near(1) [OF q] by linarith
qed

lemma fl64_three_tenths: "fl64 (3 / 10) = 5404319552844595 / 18014398509481984"
  by code_simp

lemma fl64_of_nat:
  assumes "0 < n" and "n < 2 ^ 53"
  shows "fl64 (of_nat n) = of_nat n"
proof -
  have "int n < 2 ^ 53" using assms(2) by (simp add: of_nat_less_numeral_power_cancel_iff)
  moreover have "1 \<le> int n" using assms(1) by simp
  ultimately have "fl64 (of_int (int n)) = of_int (int n)" by (intro fl64_int)
  then show ?thesis by simp
qed

lemma threshold_exact:
  assumes "0 < n" and "n < 2 ^ 50" and "k \<le> n"
  shows "of_nat k > fl64 (fl64 (of_nat n) * fl64 (3 / 10)) \<longleftrightarrow> 3 * n < 10 * k"
proof -
  define d :: rat where "d = 5404319552844595 / 18014398509481984"
  define y :: rat where "y = of_nat n * d"
  have nn: "(1::rat) \<le> of_nat n" "(of_nat n :: rat) < 2 ^ 50"
    using assms(1,2) by (simp_all add: of_nat_less_numeral_power_cancel_iff Suc_le_eq)
  have "n < 2 ^ 53" using assms(2) by (rule less_trans) simp
  then have e: "fl64 (fl64 (of_nat n) * fl64 (3 / 10)) = fl64 y"
    using assms(1) by (simp add: fl64_of_nat fl64_three_tenths y_def d_def)
  have y: "1 / 4 \<le> y" using nn(1) by (simp add: y_def d_def)
  have k53: "int k < 2 ^ 53"
    using assms(2,3) by (simp add: of_nat_less_numeral_power_cancel_iff)
  show ?thesis
  proof (cases "3 * n < 10 * k")
    case True
    then have "3 * n + 1 \<le> 10 * k" by simp
    then have "(of_nat (3 * n + 1) :: rat) \<le> of_nat (10 * k)" by (simp only: of_nat_le_iff)
    then have k: "3 * (of_nat n :: rat) + 1 \<le> 10 * of_nat k" by simp
    have "fl64 y \<le> y + y / 2 ^ 53" using fl64_near(1) [OF y] .
    moreover have "y + y / 2 ^ 53 < of_nat k"
      using k nn by (simp add: y_def d_def)
    ultimately show ?thesis using True e by simp
  next
    case False
    then have "10 * k \<le> 3 * n" by simp
    then have "(of_nat (10 * k) :: rat) \<le> of_nat (3 * n)" by (simp only: of_nat_le_iff)
    then have k: "10 * (of_nat k :: rat) \<le> 3 * of_nat n" by simp
    have "of_int (int k) - y \<le> y / 2 ^ 54"
      using k nn by (simp add: y_def d_def)
    then have "of_int (int k) \<le> fl64 y"
      using y k53 by (intro fl64_ge_int)
    then show ?thesis using False e by simp
  qed
qed

subsection \<open>The chart of the satisfaction levels\<close>

lemma sat_labels_in_range: "1 \<le> i \<Longrightarrow> i \<le> 5 \<Longrightarrow> \<exists>l. sat_labels i = Some l"
proof -
  assume "1 \<le> i" "i \<le> 5"
  then have "i = 1 \<or> i = 2 \<or> i = 3 \<or> i = 4 \<or> i = 5" by arith
  then show ?thesis by (auto simp: sat_labels_def)
qed

lemma label_bars_returns:
  "\<forall>ic \<in> set ics. 1 \<le> fst ic \<and> fst ic \<le> 5 \<Longrightarrow> \<exists>bars. label_bars ics = Inr bars"
proof (induction ics)
  case Nil
  show ?case by simp
next
  case (Cons ic ics)
  obtain i c where ic: "ic = (i, c)" by (cases ic)
  with Cons.prems obtain l where l: "sat_labels i = Some l"
    using sat_labels_in_range [of i] by auto
  from Cons obtain bars where "label_bars ics = Inr bars" by auto
  with ic l show ?case by simp
qed

lemma chart_returns:
  assumes "list_all in_range rs"
  shows "\<exists>bars. label_bars (sat_counts (map satisfaction rs)) = Inr bars"
proof (rule label_bars_returns)
  show "\<forall>ic \<in> set (sat_counts (map satisfaction rs)). 1 \<le> fst ic \<and> fst ic \<le> 5"
    using assms by (auto simp: sat_counts_def value_counts_set list_all_iff in_range_def)
qed

lemma dashboard_completes:
  assumes "rs \<noteq> []" and "list_all in_range rs"
  shows "\<exists>c. analysis_dashboard rs = Completed (key_metrics rs) c (key_insights rs)"
proof -
  obtain bars where "label_bars (sat_counts (map satisfaction rs)) = Inr bars"
    using chart_returns [OF assms(2)] by blast
  with assms(1) show ?thesis by (simp add: analysis_dashboard_def)
qed

subsection \<open>The thresholds of the findings\<close>

lemma avg_sat_float:
  "rs \<noteq> [] \<Longrightarrow> avg_sat (key_metrics rs) = Some (fl64 (mean_satisfaction rs))"
  by (simp add: key_metrics_def series_mean_def mean_satisfaction_def)

lemma count_yes_le: "count_yes col rs \<le> length rs"
  by (simp add: count_yes_def)

lemma share_over_three_tenths:
  assumes "rs \<noteq> []"
  shows "3 / 10 < share_yes col rs \<longleftrightarrow> 3 * length rs < 10 * count_yes col rs"
proof -
  have n: "(0::rat) < of_nat (length rs)" using assms by simp
  have "3 / 10 < share_yes col rs
      \<longleftrightarrow> (of_nat (3 * length rs) :: rat) < of_nat (10 * count_yes col rs)"
    using n by (simp add: share_yes_def pos_less_divide_eq field_simps)
  then show ?thesis by (simp only: of_nat_less_iff)
qed

lemma findings_iff:
  assumes "rs \<noteq> []" and "length rs < 2 ^ 50" and "list_all in_range rs"
  shows "Low_satisfaction_alert \<in> set (key_insights rs) \<longleftrightarrow> mean_satisfaction rs < 3"
    and "Financial_support_needed \<in> set (key_insights rs)
          \<longleftrightarrow> 3 / 10 < share_yes financial_challenges rs"
    and "Academic_balance_concerns \<in> set (key_insights rs)
          \<longleftrightarrow> 3 / 10 < share_yes academic_challenges rs"
proof -
  have n: "0 < length rs" using assms(1) by simp
  have "Low_satisfaction_alert \<in> set (key_insights rs) \<longleftrightarrow> fl64 (mean_satisfaction rs) < 3"
    using assms(1) by (simp add: key_insights_def Let_def avg_sat_float)
  then show "Low_satisfaction_alert \<in> set (key_insights rs) \<longleftrightarrow> mean_satisfaction rs < 3"
    using fl64_mean_below_three [OF assms] by simp
  have "Financial_support_needed \<in> set (key_insights rs)
      \<longleftrightarrow> of_nat (count_yes financial_challenges rs)
          > fl64 (fl64 (of_nat (length rs)) * fl64 (3 / 10))"
    by (simp add: key_insights_def Let_def key_metrics_def)
  then show "Financial_support_needed \<in> set (key_insights rs)
          \<longleftrightarrow> 3 / 10 < share_yes financial_challenges rs"
    using threshold_exact [OF n assms(2) count_yes_le] share_over_three_tenths [OF assms(1)]
    by simp
  have "Academic_balance_concerns \<in> set (key_insights rs)
      \<longleftrightarrow> of_nat (count_yes academic_challenges rs)
          > fl64 (fl64 (of_nat (length rs)) * fl64 (3 / 10))"
    by (simp add: key_insights_def Let_def key_metrics_def)
  then show "Academic_balance_concerns \<in> set (key_insights rs)
          \<longleftrightarrow> 3 / 10 < share_yes academic_challenges rs"
    using threshold_exact [OF n assms(2) count_yes_le] share_over_three_tenths [OF assms(1)]
    by simp
qed

text \<open>
  C6. As stated the claim fails: for six responses with the satisfactions 7, 1, 1, 1, 1
  and 1 the mean is 2, below 3, but the run of the dashboard ends in the chart of the
  satisfaction levels with \<^verbatim>\<open>KeyError\<close>, before any finding is shown.
\<close>

theorem insight_thresholds_counterexample:
  "low_six \<noteq> [] \<and> mean_satisfaction low_six < 3
   \<and> analysis_dashboard low_six = Raised (key_metrics low_six) (KeyError 7)"
  by code_simp

text \<open>
  C6, amended. For every non-empty collection of fewer than \<open>2 ^ 50\<close> responses in which
  every satisfaction is one of 1 to 5, the dashboard shows its findings, and they contain
  the low satisfaction alert exactly when the mean satisfaction is below 3, the finding
  on financial support exactly when the share of responses with financial challenges
  \<^verbatim>\<open>Yes\<close> is above 3/10, and the finding on academic balance exactly when the share with
  academic challenges \<^verbatim>\<open>Yes\<close> is above 3/10. With 4 of 10 responses reporting financial
  challenges the financial finding is present, with 2 of 10 it is absent.
\<close>

theorem insight_thresholds:
  assumes "rs \<noteq> []" and "length rs < 2 ^ 50" and "list_all in_range rs"
  shows "(\<exists>c. analysis_dashboard rs = Completed (key_metrics rs) c (key_insights rs))
    \<and> (Low_satisfaction_alert \<in> set (key_insights rs) \<longleftrightarrow> mean_satisfaction rs < 3)
    \<and> (Financial_support_needed \<in> set (key_insights rs)
         \<longleftrightarrow> 3 / 10 < share_yes financial_challenges rs)
    \<and> (Academic_balance_concerns \<in> set (key_insights rs)
         \<longleftrightarrow> 3 / 10 < share_yes academic_challenges rs)
    \<and> (length rs = 10 \<and> count_yes financial_challenges rs = 4
         \<longrightarrow> Financial_support_needed \<in> set (key_insights rs))
    \<and> (length rs = 10 \<and> count_yes financial_challenges rs = 2
         \<longrightarrow> Financial_support_needed \<notin> set (key_insights rs))"
proof -
  have four: "Financial_support_needed \<in> set (key_insights rs)"
    if "length rs = 10" "count_yes financial_challenges rs = 4"
    using that by (simp add: findings_iff(2) [OF assms] share_yes_def)
  have two: "Financial_support_needed \<notin> set (key_insights rs)"
    if "length rs = 10" "count_yes financial_challenges rs = 2"
    using that by (simp add: findings_iff(2) [OF assms] share_yes_def)
  show ?thesis
    using dashboard_completes [OF assms(1,3)] findings_iff [OF assms] four two by blast
qed

theorem insight_thresholds_witness:
  "four_of_ten \<noteq> [] \<and> length four_of_ten < 2 ^ 50 \<and> list_all in_range four_of_ten
   \<and> length four_of_ten = 10 \<and> count_yes financial_challenges four_of_ten = 4
   \<and> Financial_support_needed \<in> set (key_insights four_of_ten)
   \<and> two_of_ten \<noteq> [] \<and> length two_of_ten < 2 ^ 50 \<and> list_all in_range two_of_ten
   \<and> length two_of_ten = 10 \<and> count_yes financial_challenges two_of_ten = 2
   \<and> Financial_support_needed \<notin> set (key_insights two_of_ten)
   \<and> mean_satisfaction four_of_ten < 3
   \<and> Low_satisfaction_alert \<in> set (key_insights four_of_ten)"
proof -
  have a: "four_of_ten \<noteq> []" by code_simp
  have a1: "length four_of_ten < 2 ^ 50" by (simp add: four_of_ten_def)
  have a2: "list_all in_range four_of_ten" by code_simp
  have a3: "length four_of_ten = 10 \<and> count_yes financial_challenges four_of_ten = 4"
    by code_simp
  have b: "two_of_ten \<noteq> []" by code_simp
  have b1: "length two_of_ten < 2 ^ 50" by (simp add: two_of_ten_def)
  have b2: "list_all in_range two_of_ten" by code_simp
  have b3: "length two_of_ten = 10 \<and> count_yes financial_challenges two_of_ten = 2"
    by code_simp
  have c: "mean_satisfaction four_of_ten < 3" by code_simp
  note four = insight_thresholds [OF a a1 a2]
  note two = insight_thresholds [OF b b1 b2]
  have s4: "3 / 10 < share_yes financial_challenges four_of_ten" by code_simp
  have s2: "\<not> 3 / 10 < share_yes financial_challenges two_of_ten" by code_simp
  have f4: "Financial_support_needed \<in> set (key_insights four_of_ten)"
    using four s4 by simp
  have f2: "Financial_support_needed \<notin> set (key_insights two_of_ten)"
    using two s2 by simp
  have low: "Low_satisfaction_alert \<in> set (key_insights four_of_ten)"
    using four c by simp
  from a a1 a2 a3 b b1 b2 b3 c f4 f2 low show ?thesis by simp
qed

subsection \<open>The average satisfaction\<close>




subsection \<open>The most requested priorities\<close>

lemma info_insights:
  "filter (\<lambda>m. level_of m = Info) (key_insights rs)
     = (if all_priorities rs = [] then []
        else [Retreat_focus_areas (str_join '', '' (map fst (top_n 3 (all_priorities rs))))])"
  by (simp add: key_insights_def Let_def)

text \<open>
  C8. For every input list and every \<open>n\<close>, the first \<open>n\<close> counted categories are a
  prefix of the list of all (category, count) pairs, in which every category of the
  input stands once with the number of its occurrences; counts never increase along the
  list, and categories of equal count stand in the order in which they are first seen
  in the input. Each option selected in a response adds one to its priority's count,
  and the finding on focus areas, present when some priority was selected, names the
  first three categories of this order.
\<close>

theorem top_n_order_and_focus_areas:
  "top_n n xs = take n (value_counts xs)
   \<and> set (value_counts xs) = (\<lambda>k. (k, count_list xs k)) ` set xs
   \<and> distinct (map fst (value_counts xs))
   \<and> sorted_wrt (\<lambda>a b. snd a \<ge> snd b) (top_n n xs)
   \<and> sorted_wrt (seen_before xs) (filter (\<lambda>kv. snd kv = c) (top_n n xs))
   \<and> count_list (all_priorities rs) k = sum_list (map (\<lambda>r. count_list (retreat_priorities r) k) rs)
   \<and> filter (\<lambda>m. level_of m = Info) (key_insights rs)
       = (if all_priorities rs = [] then []
          else [Retreat_focus_areas
                  (str_join '', '' (map fst (take 3 (value_counts (all_priorities rs)))))])"
proof -
  have "sorted_wrt (\<lambda>a b. snd a \<ge> snd b) (take n (value_counts xs))"
    using value_counts_descending [of xs] by (rule sorted_wrt_take)
  moreover have "sorted_wrt (seen_before xs) (filter (\<lambda>kv. snd kv = c) (take n (value_counts xs)))"
    using value_counts_ties by (rule sorted_wrt_take_filter)
  moreover have "count_list (all_priorities rs) k
      = sum_list (map (\<lambda>r. count_list (retreat_priorities r) k) rs)"
    by (simp add: all_priorities_def count_list_concat comp_def)
  ultimately show ?thesis
    by (simp add: top_n_def value_counts_set value_counts_distinct info_insights)
qed

theorem top_n_order_and_focus_areas_witness:
  "top_n 3 (all_priorities two_votes) = [(''Team building'', 2), (''Skills training'', 1)]
   \<and> sorted_wrt (\<lambda>a b. snd a \<ge> snd b) (top_n 3 (all_priorities two_votes))
   \<and> filter (\<lambda>m. level_of m = Info) (key_insights two_votes)
       = [Retreat_focus_areas ''Team building, Skills training'']"
proof -
  have a: "top_n 3 (all_priorities two_votes) = [(''Team building'', 2), (''Skills training'', 1)]"
    by code_simp
  have b: "filter (\<lambda>m. level_of m = Info) (key_insights two_votes)
       = [Retreat_focus_areas ''Team building, Skills training'']"
    by code_simp
  show ?thesis
    using a b top_n_order_and_focus_areas [of 3 "all_priorities two_votes"] by simp
qed

end
